theory Spec2Isabelle
  imports Complex_Main "HOL-Library.AList" "HOL-Library.Monad_Syntax"
begin

section \<open>World of bits: the windowed grid engine of \<open>src/main.ts\<close>\<close>

text \<open>
  The repository holds several revisions of one file, \<open>src/main.ts\<close>. The development
  follows the revision with the persistent token store and the two movement controllers
  (\<open>src/unnamed/part_001\<close>, lines 827 to 1884), and, where a property is also stated of the
  first game revision (\<open>src/src/main.ts\<close>), that revision's functions under a name ending
  in \<open>_v1\<close>. The sync of the player-window revision (\<open>src/unnamed/part_001\<close>, lines 1885 to
  2602) is there under names ending in \<open>_v3\<close>.

  JavaScript numbers that hold cell rows, columns and token values are integers in every
  path of the first two (they come from \<open>Math.floor\<close>, from integer constants and from
  doubling), so they are \<open>int\<close>; the window of the player-window revision has rows and
  columns that are not integers, and they are \<open>real\<close>. Latitudes, longitudes and the value of
  the hash are \<open>real\<close>: the model computes with the exact numbers the doubles stand for.
\<close>

subsection \<open>Configuration and constants\<close>

text \<open>
  \<open>CLASSROOM\<close>, \<open>CELL_DEG\<close>, \<open>INTERACT_RANGE\<close>, \<open>VIEW_RADIUS\<close> and \<open>STORAGE_VERSION\<close> are the same
  in every revision that has them. The win threshold and the two toggles differ between
  revisions (\<open>TARGET\<close> is 16 or 64) and both branches of each toggle are code, so they are
  the fields of a configuration the functions take.
\<close>

definition CLASSROOM_lat :: real where
  "CLASSROOM_lat = 3699785920944698 / 100000000000000"

definition CLASSROOM_lng :: real where
  "CLASSROOM_lng = - (12205683743811225 / 100000000000000)"

definition CELL_DEG :: real where
  "CELL_DEG = 125 / 1000000"

definition INTERACT_RANGE :: int where
  "INTERACT_RANGE = 3"

definition VIEW_RADIUS :: int where
  "VIEW_RADIUS = INTERACT_RANGE + 5"

definition STORAGE_VERSION :: int where
  "STORAGE_VERSION = 3"

record config =
  TARGET :: int
  MERGE_RESULT_IN_HAND :: bool
  MEMORYLESS :: bool

definition config_v3 :: config where
  "config_v3 = \<lparr>TARGET = 64, MERGE_RESULT_IN_HAND = True, MEMORYLESS = True\<rparr>"

subsection \<open>Cell identity and keys\<close>

text \<open>
  A template literal prints an integer in decimal, with a leading minus sign when it is
  negative (for magnitudes below \<open>1e21\<close>, far beyond any cell of the grid). \<open>nat_str\<close> and
  \<open>num_str\<close> are that conversion.
\<close>

type_synonym CellKey = string

record GridCell =
  row :: int
  col :: int

definition digit_char :: "nat \<Rightarrow> char" where
  "digit_char d = ''0123456789'' ! d"

fun nat_str :: "nat \<Rightarrow> string" where
  "nat_str n = (if n < 10 then [digit_char n] else nat_str (n div 10) @ [digit_char (n mod 10)])"

declare nat_str.simps [simp del]

definition num_str :: "int \<Rightarrow> string" where
  "num_str i = (if i < 0 then CHR ''-'' # nat_str (nat (- i)) else nat_str (nat i))"

definition cellKeyFromRC :: "int \<Rightarrow> int \<Rightarrow> CellKey" where
  "cellKeyFromRC r c = num_str r @ '':'' @ num_str c"

definition keyOf :: "int \<Rightarrow> int \<Rightarrow> CellKey" where
  "keyOf r c = cellKeyFromRC r c"

subsection \<open>Deterministic token spawn\<close>

text \<open>
  \<open>luck\<close> is imported from \<open>./_luck.ts\<close>, which is not among the sources: it is a parameter
  of every function that reads a base value. The three literals 0.14, 0.20 and 0.22 each
  round up to their double, so for a double \<open>r\<close> the comparison with the literal and the
  comparison with the decimal fraction agree.
\<close>

definition baseTokenValue :: "(string \<Rightarrow> real) \<Rightarrow> int \<Rightarrow> int \<Rightarrow> int" where
  "baseTokenValue luck r c =
     (let h = luck (''cell:'' @ num_str r @ '':'' @ num_str c @ '':seed1'')
      in if h < 14 / 100 then 2
         else if h < 20 / 100 then 4
         else if h < 22 / 100 then 8
         else 0)"

text \<open>
  A stand-in for the missing hash in the examples that run the model: a polynomial hash of
  the key's character codes, scaled into \<open>[0, 1)\<close>.
\<close>

definition luck_demo :: "string \<Rightarrow> real" where
  "luck_demo key = real (fold (\<lambda>ch h. (31 * h + of_char ch) mod 1000) key 7) / 1000"


subsection \<open>Grid helpers\<close>

text \<open>
  \<open>LatLngBounds\<close> is Leaflet's rectangle; \<open>getCenter\<close> is its midpoint (Leaflet's
  \<open>LatLngBounds.getCenter\<close>, written out here because \<open>cellCenterLatLng\<close> is built on it).
\<close>

record LatLngBounds =
  south :: real
  west :: real
  north :: real
  east :: real

record LatLng =
  lat :: real
  lng :: real

definition latLngToCell :: "real \<Rightarrow> real \<Rightarrow> GridCell" where
  "latLngToCell la lo =
     (let dLat = la - CLASSROOM_lat;
          dLng = lo - CLASSROOM_lng
      in \<lparr>row = \<lfloor>dLat / CELL_DEG\<rfloor>, col = \<lfloor>dLng / CELL_DEG\<rfloor>\<rparr>)"

definition cellBounds :: "int \<Rightarrow> int \<Rightarrow> LatLngBounds" where
  "cellBounds r c =
     \<lparr>south = CLASSROOM_lat + of_int r * CELL_DEG,
      west = CLASSROOM_lng + of_int c * CELL_DEG,
      north = CLASSROOM_lat + of_int (r + 1) * CELL_DEG,
      east = CLASSROOM_lng + of_int (c + 1) * CELL_DEG\<rparr>"

definition getCenter :: "LatLngBounds \<Rightarrow> LatLng" where
  "getCenter b = \<lparr>lat = (south b + north b) / 2, lng = (west b + east b) / 2\<rparr>"

definition cellCenterLatLng :: "int \<Rightarrow> int \<Rightarrow> LatLng" where
  "cellCenterLatLng r c = getCenter (cellBounds r c)"

subsection \<open>The game state\<close>

text \<open>
  The module-level variables of the file, gathered in one record. A JavaScript \<open>Map\<close> is an
  association list in insertion order: \<open>Map.set\<close> is \<open>AList.update\<close> (replace in place, or
  append), \<open>Map.delete\<close> is \<open>AList.delete\<close>, \<open>Map.get\<close> is \<open>map_of\<close>. A \<open>TokenState\<close> object
  \<open>{v}\<close> is its number. The object \<open>{value}\<close> of the inventory, or \<open>null\<close>, is an \<open>int option\<close>.
  \<open>saveTimer\<close> tells whether the debounced write is pending.

  Calls that only restyle Leaflet layers or DOM nodes (\<open>setVisual\<close>, \<open>updateBounds\<close>,
  \<open>updateInventoryHUD\<close>, \<open>updateCell\<close>, \<open>refreshVisibleCells\<close>, the player marker, \<open>panTo\<close>) write
  none of the variables below and have no counterpart in the model. The calls on the outside
  world that the properties count are logged in \<open>effects\<close>: the construction of a
  \<open>CellView\<close>, its \<open>destroy\<close>, and the \<open>alert\<close> of \<open>checkWin\<close>.
\<close>

datatype MovementMode = buttons | geo

record Memento =
  tokens :: "(CellKey \<times> int) list"
  m_inventory :: "int option"
  m_playerCell :: GridCell
  movementMode :: "MovementMode option"
  target :: "int option"

record CellView =
  cv_row :: int
  cv_col :: int

datatype effect = ViewCreated CellKey | ViewDestroyed CellKey | WinAlert int

datatype error = TypeError

record game_state =
  tokenStore :: "(CellKey \<times> int) list"
  inventory :: "int option"
  playerCell :: GridCell
  currentMovementMode :: MovementMode
  lastMemento :: "Memento option"
  saveTimer :: bool
  visibleCells :: "(CellKey \<times> CellView) list"
  effects :: "effect list"

definition inRange :: "game_state \<Rightarrow> int \<Rightarrow> int \<Rightarrow> bool" where
  "inRange s r c =
     (let dr = \<bar>r - row (playerCell s)\<bar>;
          dc = \<bar>c - col (playerCell s)\<bar>
      in max dr dc \<le> INTERACT_RANGE)"

subsection \<open>Memento and persistence\<close>

definition serializeState :: "config \<Rightarrow> game_state \<Rightarrow> Memento" where
  "serializeState cfg s =
     \<lparr>tokens = tokenStore s,
      m_inventory = (case inventory s of Some v \<Rightarrow> Some v | None \<Rightarrow> None),
      m_playerCell = \<lparr>row = row (playerCell s), col = col (playerCell s)\<rparr>,
      movementMode = Some (currentMovementMode s),
      target = Some (TARGET cfg)\<rparr>"

definition restoreFromMemento :: "Memento \<Rightarrow> game_state \<Rightarrow> game_state" where
  "restoreFromMemento m s =
     s\<lparr>tokenStore := fold (\<lambda>(key, v). AList.update key v) (tokens m) [],
       inventory := (case m_inventory m of Some v \<Rightarrow> Some v | None \<Rightarrow> None),
       playerCell := \<lparr>row = row (m_playerCell m), col = col (m_playerCell m)\<rparr>,
       currentMovementMode :=
         (case movementMode m of Some mm \<Rightarrow> mm | None \<Rightarrow> currentMovementMode s)\<rparr>"

text \<open>
  \<open>localStorage\<close> holds, under \<open>STORAGE_KEY\<close>, the text \<open>JSON.stringify(payload)\<close>, or nothing.
  \<open>json_payload\<close> is the text \<open>JSON.stringify\<close> gives for a payload whose keys need no
  escaping (the keys \<open>cellKeyFromRC\<close> makes are digits, minus signs and a colon).
\<close>

record payload =
  version :: int
  snapshot :: Memento

definition json_string :: "string \<Rightarrow> string" where
  "json_string x = [CHR 0x22] @ x @ [CHR 0x22]"

definition json_token :: "CellKey \<times> int \<Rightarrow> string" where
  "json_token = (\<lambda>(key, v). ''['' @ json_string key @ '',{'' @ json_string ''v'' @ '':'' @ num_str v @ ''}]'')"

fun json_commas :: "string list \<Rightarrow> string" where
  "json_commas [] = []"
| "json_commas [x] = x"
| "json_commas (x # y # ys) = x @ '','' @ json_commas (y # ys)"

definition json_inventory :: "int option \<Rightarrow> string" where
  "json_inventory i =
     (case i of None \<Rightarrow> ''null''
      | Some v \<Rightarrow> ''{'' @ json_string ''value'' @ '':'' @ num_str v @ ''}'')"

definition json_mode :: "MovementMode \<Rightarrow> string" where
  "json_mode mm = (case mm of buttons \<Rightarrow> json_string ''buttons'' | geo \<Rightarrow> json_string ''geo'')"

definition json_memento :: "Memento \<Rightarrow> string" where
  "json_memento m =
     ''{'' @ json_string ''tokens'' @ '':['' @ json_commas (map json_token (tokens m)) @ '']''
     @ '','' @ json_string ''inventory'' @ '':'' @ json_inventory (m_inventory m)
     @ '','' @ json_string ''playerCell'' @ '':{'' @ json_string ''row'' @ '':''
       @ num_str (row (m_playerCell m)) @ '','' @ json_string ''col'' @ '':''
       @ num_str (col (m_playerCell m)) @ ''}''
     @ (case movementMode m of None \<Rightarrow> []
        | Some mm \<Rightarrow> '','' @ json_string ''movementMode'' @ '':'' @ json_mode mm)
     @ (case target m of None \<Rightarrow> []
        | Some t \<Rightarrow> '','' @ json_string ''target'' @ '':'' @ num_str t)
     @ ''}''"

definition json_payload :: "payload \<Rightarrow> string" where
  "json_payload p =
     ''{'' @ json_string ''version'' @ '':'' @ num_str (version p)
     @ '','' @ json_string ''snapshot'' @ '':'' @ json_memento (snapshot p) @ ''}''"

text \<open>
  Both functions run inside \<open>try\<close> and \<open>catch\<close>. In \<open>saveState\<close> the call that can throw on
  this plain data is \<open>localStorage.setItem\<close> (a full or a disabled storage); whether it throws
  on a text is the argument \<open>setItem_throws\<close>, and the \<open>catch\<close> then leaves the stored item as
  it was. In \<open>loadState\<close>, \<open>JSON_parse\<close> stands for \<open>JSON.parse\<close> followed by the shape checks:
  it answers \<open>None\<close> where \<open>JSON.parse\<close> throws or where its value has no snapshot, no array
  of tokens or no player cell, and \<open>loadState\<close> returns \<open>null\<close> in each of these cases. A
  \<open>getItem\<close> that throws ends in the same \<open>null\<close> as an absent item.
\<close>

type_synonym storage = "string option"

definition saveState :: "config \<Rightarrow> (string \<Rightarrow> bool) \<Rightarrow> game_state \<Rightarrow> storage \<Rightarrow> storage" where
  "saveState cfg setItem_throws s st =
     (let snap = serializeState cfg s;
          p = \<lparr>version = STORAGE_VERSION, snapshot = snap\<rparr>;
          json = json_payload p
      in if length json > 200000 then st
         else if setItem_throws json then st
         else Some json)"

definition loadState :: "(string \<Rightarrow> payload option) \<Rightarrow> storage \<Rightarrow> Memento option" where
  "loadState JSON_parse st =
     (case st of
        None \<Rightarrow> None
      | Some raw \<Rightarrow>
          if raw = [] then None
          else case JSON_parse raw of
                 None \<Rightarrow> None
               | Some p \<Rightarrow> if version p \<noteq> STORAGE_VERSION then None else Some (snapshot p))"

definition scheduleStateSave :: "game_state \<Rightarrow> game_state" where
  "scheduleStateSave s = (if saveTimer s then s else s\<lparr>saveTimer := True\<rparr>)"

definition saveMemento :: "config \<Rightarrow> game_state \<Rightarrow> game_state" where
  "saveMemento cfg s = scheduleStateSave (s\<lparr>lastMemento := Some (serializeState cfg s)\<rparr>)"

definition loadMemento :: "(string \<Rightarrow> payload option) \<Rightarrow> storage \<Rightarrow> game_state \<Rightarrow> game_state" where
  "loadMemento JSON_parse st s =
     (case loadState JSON_parse st of None \<Rightarrow> s
      | Some loaded \<Rightarrow> restoreFromMemento loaded (s\<lparr>lastMemento := Some loaded\<rparr>))"

text \<open>The timer callback of \<open>scheduleStateSave\<close>: it clears the timer and writes.\<close>

definition saveTimer_fires ::
  "config \<Rightarrow> (string \<Rightarrow> bool) \<Rightarrow> game_state \<times> storage \<Rightarrow> game_state \<times> storage" where
  "saveTimer_fires cfg setItem_throws =
     (\<lambda>(s, st). (s\<lparr>saveTimer := False\<rparr>, saveState cfg setItem_throws s st))"

subsection \<open>A reader for the stored text\<close>

text \<open>
  \<open>parse_payload\<close> reads back the texts \<open>json_payload\<close> writes, field by field in the order
  they are written. It is the \<open>JSON_parse\<close> of the examples; \<open>parse_payload_json_payload\<close>
  below shows that it inverts \<open>json_payload\<close> on every payload whose keys hold no double
  quote. \<open>setItem_ok\<close> is a storage that takes every text, \<open>setItem_full\<close> one that takes none.
\<close>

definition read_lit :: "string \<Rightarrow> string \<Rightarrow> string option" where
  "read_lit lit s = (if take (length lit) s = lit then Some (drop (length lit) s) else None)"

definition is_digit :: "char \<Rightarrow> bool" where
  "is_digit ch = (ch \<in> set ''0123456789'')"

definition digit_val :: "char \<Rightarrow> nat" where
  "digit_val ch = of_char ch - 48"

definition read_nat :: "string \<Rightarrow> (nat \<times> string) option" where
  "read_nat s =
     (let ds = takeWhile is_digit s
      in if ds = [] then None
         else Some (foldl (\<lambda>a ch. 10 * a + digit_val ch) 0 ds, dropWhile is_digit s))"

definition read_int :: "string \<Rightarrow> (int \<times> string) option" where
  "read_int s =
     (if s \<noteq> [] \<and> hd s = CHR ''-''
      then map_option (\<lambda>(n, rest). (- int n, rest)) (read_nat (tl s))
      else map_option (\<lambda>(n, rest). (int n, rest)) (read_nat s))"

definition read_string :: "string \<Rightarrow> (string \<times> string) option" where
  "read_string s =
     (if s \<noteq> [] \<and> hd s = CHR 0x22 \<and> dropWhile (\<lambda>ch. ch \<noteq> CHR 0x22) (tl s) \<noteq> []
      then Some (takeWhile (\<lambda>ch. ch \<noteq> CHR 0x22) (tl s),
                 tl (dropWhile (\<lambda>ch. ch \<noteq> CHR 0x22) (tl s)))
      else None)"

definition read_token :: "string \<Rightarrow> ((CellKey \<times> int) \<times> string) option" where
  "read_token s =
     do { s1 \<leftarrow> read_lit ''['' s;
          (key, s2) \<leftarrow> read_string s1;
          s3 \<leftarrow> read_lit ('',{'' @ json_string ''v'' @ '':'') s2;
          (v, s4) \<leftarrow> read_int s3;
          s5 \<leftarrow> read_lit ''}]'' s4;
          Some ((key, v), s5) }"

partial_function (option) read_token_list :: "string \<Rightarrow> ((CellKey \<times> int) list \<times> string) option" where
  "read_token_list s =
     do { (t, s1) \<leftarrow> read_token s;
          if s1 \<noteq> [] \<and> hd s1 = CHR '',''
          then do { (ts, s2) \<leftarrow> read_token_list (tl s1); Some (t # ts, s2) }
          else Some ([t], s1) }"

definition read_tokens :: "string \<Rightarrow> ((CellKey \<times> int) list \<times> string) option" where
  "read_tokens s =
     do { s1 \<leftarrow> read_lit ''['' s;
          if s1 \<noteq> [] \<and> hd s1 = CHR '']'' then Some ([], tl s1)
          else do { (ts, s2) \<leftarrow> read_token_list s1;
                    s3 \<leftarrow> read_lit '']'' s2;
                    Some (ts, s3) } }"

definition read_inventory :: "string \<Rightarrow> (int option \<times> string) option" where
  "read_inventory s =
     (case read_lit ''null'' s of
        Some rest \<Rightarrow> Some (None, rest)
      | None \<Rightarrow>
          do { s1 \<leftarrow> read_lit (''{'' @ json_string ''value'' @ '':'') s;
               (v, s2) \<leftarrow> read_int s1;
               s3 \<leftarrow> read_lit ''}'' s2;
               Some (Some v, s3) })"

definition read_mode :: "string \<Rightarrow> (MovementMode \<times> string) option" where
  "read_mode s =
     (case read_lit (json_string ''buttons'') s of
        Some rest \<Rightarrow> Some (buttons, rest)
      | None \<Rightarrow> map_option (Pair geo) (read_lit (json_string ''geo'') s))"

definition read_cell :: "string \<Rightarrow> (GridCell \<times> string) option" where
  "read_cell s =
     do { s1 \<leftarrow> read_lit (''{'' @ json_string ''row'' @ '':'') s;
          (r, s2) \<leftarrow> read_int s1;
          s3 \<leftarrow> read_lit ('','' @ json_string ''col'' @ '':'') s2;
          (c, s4) \<leftarrow> read_int s3;
          s5 \<leftarrow> read_lit ''}'' s4;
          Some (\<lparr>row = r, col = c\<rparr>, s5) }"

definition read_memento :: "string \<Rightarrow> (Memento \<times> string) option" where
  "read_memento s =
     do { s1 \<leftarrow> read_lit (''{'' @ json_string ''tokens'' @ '':'') s;
          (ts, s2) \<leftarrow> read_tokens s1;
          s3 \<leftarrow> read_lit ('','' @ json_string ''inventory'' @ '':'') s2;
          (i, s4) \<leftarrow> read_inventory s3;
          s5 \<leftarrow> read_lit ('','' @ json_string ''playerCell'' @ '':'') s4;
          (pc, s6) \<leftarrow> read_cell s5;
          (mm, s7) \<leftarrow>
            (case read_lit ('','' @ json_string ''movementMode'' @ '':'') s6 of
               Some s' \<Rightarrow> map_option (\<lambda>(x, rest). (Some x, rest)) (read_mode s')
             | None \<Rightarrow> Some (None, s6));
          (tg, s8) \<leftarrow>
            (case read_lit ('','' @ json_string ''target'' @ '':'') s7 of
               Some s' \<Rightarrow> map_option (\<lambda>(x, rest). (Some x, rest)) (read_int s')
             | None \<Rightarrow> Some (None, s7));
          s9 \<leftarrow> read_lit ''}'' s8;
          Some (\<lparr>tokens = ts, m_inventory = i, m_playerCell = pc, movementMode = mm, target = tg\<rparr>, s9) }"

definition read_payload :: "string \<Rightarrow> (payload \<times> string) option" where
  "read_payload s =
     do { s1 \<leftarrow> read_lit (''{'' @ json_string ''version'' @ '':'') s;
          (ver, s2) \<leftarrow> read_int s1;
          s3 \<leftarrow> read_lit ('','' @ json_string ''snapshot'' @ '':'') s2;
          (m, s4) \<leftarrow> read_memento s3;
          s5 \<leftarrow> read_lit ''}'' s4;
          Some (\<lparr>version = ver, snapshot = m\<rparr>, s5) }"

definition parse_payload :: "string \<Rightarrow> payload option" where
  "parse_payload text =
     (case read_payload text of
        Some (p, rest) \<Rightarrow> if rest = [] then Some p else None
      | None \<Rightarrow> None)"

definition setItem_ok :: "string \<Rightarrow> bool" where
  "setItem_ok text = False"

definition setItem_full :: "string \<Rightarrow> bool" where
  "setItem_full text = True"

text \<open>What may follow a number in the text: no further digit (for the proofs).\<close>

definition ends_number :: "string \<Rightarrow> bool" where
  "ends_number rest = (rest = [] \<or> \<not> is_digit (hd rest))"

subsection \<open>Effective values\<close>

definition getEffectiveValue :: "(string \<Rightarrow> real) \<Rightarrow> game_state \<Rightarrow> int \<Rightarrow> int \<Rightarrow> int" where
  "getEffectiveValue luck s r c =
     (let key = cellKeyFromRC r c
      in case map_of (tokenStore s) key of Some v \<Rightarrow> v | None \<Rightarrow> baseTokenValue luck r c)"

definition setEffectiveValue ::
  "config \<Rightarrow> (string \<Rightarrow> real) \<Rightarrow> int \<Rightarrow> int \<Rightarrow> int \<Rightarrow> game_state \<Rightarrow> game_state" where
  "setEffectiveValue cfg luck r c v s =
     (let key = cellKeyFromRC r c;
          base = baseTokenValue luck r c
      in saveMemento cfg
           (if v = base then s\<lparr>tokenStore := AList.delete key (tokenStore s)\<rparr>
            else s\<lparr>tokenStore := AList.update key v (tokenStore s)\<rparr>))"

definition checkWin :: "config \<Rightarrow> game_state \<Rightarrow> game_state" where
  "checkWin cfg s =
     (case inventory s of
        Some v \<Rightarrow> if v \<ge> TARGET cfg then s\<lparr>effects := effects s @ [WinAlert v]\<rparr> else s
      | None \<Rightarrow> s)"


text \<open>
  The invariant of the sparse store, in the words of the specification: no entry of the
  store equals the deterministic base value of its cell.
\<close>

definition store_minimal :: "(string \<Rightarrow> real) \<Rightarrow> game_state \<Rightarrow> bool" where
  "store_minimal luck s =
     (\<forall>r c. map_of (tokenStore s) (cellKeyFromRC r c) \<noteq> Some (baseTokenValue luck r c))"

subsection \<open>The visible window and its sync\<close>

text \<open>
  \<open>playerVisibleCellRange\<close> reads \<open>map.getBounds()\<close>; the bounds are an argument here. The two
  nested \<open>for\<close> loops count an integer from the minimum up to the maximum, which is a fold
  over the list \<open>[minimum..maximum]\<close>; the list is empty when the minimum is the larger.
  \<open>stale\<close> is the \<open>Set\<close> built from the keys of \<open>visibleCells\<close>, in insertion order (the
  keys of a \<open>Map\<close> are distinct, so \<open>remdups\<close> leaves them as they are).
  In the second loop \<open>visibleCells.get(kk)!\<close> is only asserted to be defined: were it
  \<open>undefined\<close>, \<open>cv.destroy\<close> would throw a \<open>TypeError\<close>, which is the \<open>Inl\<close> result.
\<close>

record CellRange =
  minRow :: int
  maxRow :: int
  minCol :: int
  maxCol :: int

definition playerVisibleCellRange :: "LatLngBounds \<Rightarrow> CellRange" where
  "playerVisibleCellRange bounds =
     (let swCell = latLngToCell (south bounds) (west bounds);
          neCell = latLngToCell (north bounds) (east bounds)
      in \<lparr>minRow = row swCell + VIEW_RADIUS,
          maxRow = row neCell - VIEW_RADIUS,
          minCol = col swCell + VIEW_RADIUS + 17,
          maxCol = col neCell - VIEW_RADIUS - 17\<rparr>)"

definition sync_cell :: "int \<Rightarrow> int \<Rightarrow> CellKey list \<times> game_state \<Rightarrow> CellKey list \<times> game_state" where
  "sync_cell r c = (\<lambda>(stale, s).
     let kk = cellKeyFromRC r c;
         stale' = removeAll kk stale
     in case map_of (visibleCells s) kk of
          None \<Rightarrow>
            (stale', s\<lparr>visibleCells := AList.update kk \<lparr>cv_row = r, cv_col = c\<rparr> (visibleCells s),
                        effects := effects s @ [ViewCreated kk]\<rparr>)
        | Some cv \<Rightarrow> (stale', s))"

fun destroy_stale :: "config \<Rightarrow> CellKey list \<Rightarrow> game_state \<Rightarrow> error + game_state" where
  "destroy_stale cfg [] s = Inr s"
| "destroy_stale cfg (kk # ks) s =
     (case map_of (visibleCells s) kk of
        None \<Rightarrow> Inl TypeError
      | Some cv \<Rightarrow>
          destroy_stale cfg ks
            (s\<lparr>effects := effects s @ [ViewDestroyed kk],
               visibleCells := AList.delete kk (visibleCells s),
               tokenStore := (if MEMORYLESS cfg then AList.delete kk (tokenStore s)
                              else tokenStore s)\<rparr>))"

definition syncGridToPlayerWindow :: "config \<Rightarrow> LatLngBounds \<Rightarrow> game_state \<Rightarrow> error + game_state" where
  "syncGridToPlayerWindow cfg bounds s =
     (let s0 = saveMemento cfg s;
          rng = playerVisibleCellRange bounds;
          stale = remdups (map fst (visibleCells s0));
          (stale', s1) =
            fold (\<lambda>r. fold (\<lambda>c. sync_cell r c) [minCol rng..maxCol rng])
              [minRow rng..maxRow rng] (stale, s0)
      in destroy_stale cfg stale' s1)"

text \<open>The cells the two loops visit, in the order they visit them, and their keys.\<close>

definition window_cells :: "CellRange \<Rightarrow> (int \<times> int) list" where
  "window_cells rng = List.product [minRow rng..maxRow rng] [minCol rng..maxCol rng]"

definition window_keys :: "CellRange \<Rightarrow> CellKey list" where
  "window_keys rng = map (\<lambda>(r, c). cellKeyFromRC r c) (window_cells rng)"

text \<open>The two loops as one pass over \<open>window_cells\<close> (see \<open>fold_product\<close> below).\<close>

definition sync_cells :: "(int \<times> int) list \<Rightarrow> CellKey list \<times> game_state \<Rightarrow> CellKey list \<times> game_state" where
  "sync_cells cells = fold (\<lambda>(r, c). sync_cell r c) cells"

subsection \<open>The click handler\<close>

definition handleCellClick ::
  "config \<Rightarrow> (string \<Rightarrow> real) \<Rightarrow> int \<Rightarrow> int \<Rightarrow> game_state \<Rightarrow> game_state" where
  "handleCellClick cfg luck r c s =
     (if \<not> inRange s r c then s
      else
        let cellVal = getEffectiveValue luck s r c
        in case inventory s of
             None \<Rightarrow>
               if cellVal > 0
               then checkWin cfg (setEffectiveValue cfg luck r c 0 (s\<lparr>inventory := Some cellVal\<rparr>))
               else s
           | Some held \<Rightarrow>
               if cellVal = held \<and> held > 0
               then
                 let newVal = held * 2
                 in checkWin cfg
                      (if MERGE_RESULT_IN_HAND cfg
                       then (setEffectiveValue cfg luck r c 0 s)\<lparr>inventory := Some newVal\<rparr>
                       else (setEffectiveValue cfg luck r c newVal s)\<lparr>inventory := None\<rparr>)
               else if cellVal = 0
               then (setEffectiveValue cfg luck r c held s)\<lparr>inventory := None\<rparr>
               else s)"

subsection \<open>Movement\<close>

text \<open>
  \<open>handleMovementPosition\<close> is the callback both controllers report to. The
  \<open>ButtonMovementController\<close> keeps its own cell; \<open>stepBy\<close> returns the controller and the
  position it passes to the callback.
\<close>

definition handleMovementPosition ::
  "config \<Rightarrow> LatLngBounds \<Rightarrow> real \<Rightarrow> real \<Rightarrow> game_state \<Rightarrow> error + game_state" where
  "handleMovementPosition cfg bounds la lo s =
     (let cc = latLngToCell la lo
      in case syncGridToPlayerWindow cfg bounds (s\<lparr>playerCell := cc\<rparr>) of
           Inl e \<Rightarrow> Inl e
         | Inr s' \<Rightarrow> Inr (checkWin cfg s'))"

record ButtonMovementController =
  currentCell :: GridCell

definition stepBy :: "int \<Rightarrow> int \<Rightarrow> ButtonMovementController \<Rightarrow> ButtonMovementController \<times> LatLng" where
  "stepBy dx dy ctl =
     (let ctl' = ctl\<lparr>currentCell := \<lparr>row = row (currentCell ctl) + dy,
                                         col = col (currentCell ctl) + dx\<rparr>\<rparr>;
          centerLL = cellCenterLatLng (row (currentCell ctl')) (col (currentCell ctl'))
      in (ctl', centerLL))"

subsection \<open>The first game revision (\<open>src/src/main.ts\<close>)\<close>

text \<open>
  This revision keeps the overrides in a plain \<open>Map\<close> from key to number, has a fixed player
  (ranges are measured from \<open>originCell\<close>, the cell of \<open>CLASSROOM\<close>), writes the memento to
  \<open>localStorage\<close> at once, and raises its own alert after a merge.
\<close>

record state_v1 =
  overrides :: "(string \<times> int) list"
  inventory_v1 :: "int option"
  d3_state :: "((string \<times> int) list \<times> int option) option"
  alerts_v1 :: "int list"

definition k_v1 :: "int \<Rightarrow> int \<Rightarrow> string" where
  "k_v1 r c = num_str r @ '':'' @ num_str c"



definition getEffectiveValue_v1 :: "(string \<Rightarrow> real) \<Rightarrow> state_v1 \<Rightarrow> int \<Rightarrow> int \<Rightarrow> int" where
  "getEffectiveValue_v1 luck s r c =
     (case map_of (overrides s) (k_v1 r c) of
        Some v \<Rightarrow> v
      | None \<Rightarrow> baseTokenValue luck r c)"

definition saveMemento_v1 :: "state_v1 \<Rightarrow> state_v1" where
  "saveMemento_v1 s = s\<lparr>d3_state := Some (overrides s, inventory_v1 s)\<rparr>"

definition setEffectiveValue_v1 :: "int \<Rightarrow> int \<Rightarrow> int \<Rightarrow> state_v1 \<Rightarrow> state_v1" where
  "setEffectiveValue_v1 r c v s =
     saveMemento_v1 (s\<lparr>overrides := AList.update (k_v1 r c) v (overrides s)\<rparr>)"



subsection \<open>The player-window revision (\<open>part_001\<close>, lines 1885 to 2602)\<close>

text \<open>
  This revision draws a window of \<open>RENDER_RADIUS / 4\<close> cells around the player, which is
  2.25: the rows and columns its loops count are not integers, so they are \<open>real\<close> here. How
  a template literal prints such a number, and what \<open>parseInt\<close> reads from a text (\<open>None\<close> is
  \<open>NaN\<close>), belong to the language: they are the arguments \<open>numStr\<close> and \<open>parseInt\<close>. Its sync
  does not call \<open>saveMemento\<close>, and under memoryless mode it deletes the override of the key
  it rebuilds from the two parsed parts of the stale key.
\<close>

definition RENDER_RADIUS :: int where
  "RENDER_RADIUS = INTERACT_RANGE + 6"

record CellView_v3 =
  cv3_row :: real
  cv3_col :: real

record state_v3 =
  overrides_v3 :: "(string \<times> int) list"
  inventory_v3 :: "int option"
  playerCell_v3 :: GridCell
  visibleCells_v3 :: "(CellKey \<times> CellView_v3) list"
  effects_v3 :: "effect list"

record RealRange =
  minRow_v3 :: real
  maxRow_v3 :: real
  minCol_v3 :: real
  maxCol_v3 :: real

definition playerVisibleCellRange_v3 :: "state_v3 \<Rightarrow> RealRange" where
  "playerVisibleCellRange_v3 s =
     \<lparr>minRow_v3 = of_int (row (playerCell_v3 s)) - of_int RENDER_RADIUS / 4,
      maxRow_v3 = of_int (row (playerCell_v3 s)) + of_int RENDER_RADIUS / 4,
      minCol_v3 = of_int (col (playerCell_v3 s)) - of_int RENDER_RADIUS / 4,
      maxCol_v3 = of_int (col (playerCell_v3 s)) + of_int RENDER_RADIUS / 4\<rparr>"

definition keyOf_v3 :: "(real \<Rightarrow> string) \<Rightarrow> real \<Rightarrow> real \<Rightarrow> CellKey" where
  "keyOf_v3 numStr r c = numStr r @ '':'' @ numStr c"

definition k_v3 :: "(real \<Rightarrow> string) \<Rightarrow> real option \<Rightarrow> real option \<Rightarrow> string" where
  "k_v3 numStr r c =
     (case r of None \<Rightarrow> ''NaN'' | Some x \<Rightarrow> numStr x) @ '':'' @
     (case c of None \<Rightarrow> ''NaN'' | Some y \<Rightarrow> numStr y)"

fun split_colon :: "string \<Rightarrow> string list" where
  "split_colon [] = [[]]"
| "split_colon (ch # s) =
     (if ch = CHR '':'' then [] # split_colon s
      else case split_colon s of
             [] \<Rightarrow> [[ch]]
           | part # parts \<Rightarrow> (ch # part) # parts)"

function for_up :: "real \<Rightarrow> real \<Rightarrow> (real \<Rightarrow> 'a \<Rightarrow> 'a) \<Rightarrow> 'a \<Rightarrow> 'a" where
  "for_up i hi body x = (if i \<le> hi then for_up (i + 1) hi body (body i x) else x)"
  by pat_completeness auto
termination
proof (relation "measure (\<lambda>(i, hi, body, x). nat (\<lfloor>hi - i\<rfloor> + 1))")
  show "wf (measure (\<lambda>(i, hi, body, x). nat (\<lfloor>hi - i\<rfloor> + 1)))" by simp
next
  fix i hi :: real and body :: "real \<Rightarrow> 'a \<Rightarrow> 'a" and x :: 'a
  assume le: "i \<le> hi"
  have "\<lfloor>hi - (i + 1)\<rfloor> = \<lfloor>hi - i\<rfloor> - 1" by linarith
  moreover have "0 \<le> \<lfloor>hi - i\<rfloor>" using le by simp
  ultimately show "((i + 1, hi, body, body i x), (i, hi, body, x))
      \<in> measure (\<lambda>(i, hi, body, x). nat (\<lfloor>hi - i\<rfloor> + 1))"
    by simp
qed

declare for_up.simps [simp del]

definition sync_cell_v3 ::
  "(real \<Rightarrow> string) \<Rightarrow> real \<Rightarrow> real \<Rightarrow> CellKey list \<times> state_v3 \<Rightarrow> CellKey list \<times> state_v3" where
  "sync_cell_v3 numStr r c = (\<lambda>(stale, s).
     let kk = keyOf_v3 numStr r c;
         stale' = removeAll kk stale
     in case map_of (visibleCells_v3 s) kk of
          None \<Rightarrow>
            (stale', s\<lparr>visibleCells_v3 := AList.update kk \<lparr>cv3_row = r, cv3_col = c\<rparr> (visibleCells_v3 s),
                        effects_v3 := effects_v3 s @ [ViewCreated kk]\<rparr>)
        | Some cv \<Rightarrow> (stale', s))"

definition evicted_key_v3 :: "(real \<Rightarrow> string) \<Rightarrow> (string \<Rightarrow> real option) \<Rightarrow> CellKey \<Rightarrow> string" where
  "evicted_key_v3 numStr parseInt kk =
     (let parts = split_colon kk;
          r = (case parts of rStr # _ \<Rightarrow> parseInt rStr | [] \<Rightarrow> None);
          c = (case parts of _ # cStr # _ \<Rightarrow> parseInt cStr | _ \<Rightarrow> None)
      in k_v3 numStr r c)"

fun destroy_stale_v3 ::
  "config \<Rightarrow> (real \<Rightarrow> string) \<Rightarrow> (string \<Rightarrow> real option) \<Rightarrow> CellKey list \<Rightarrow> state_v3 \<Rightarrow> error + state_v3" where
  "destroy_stale_v3 cfg numStr parseInt [] s = Inr s"
| "destroy_stale_v3 cfg numStr parseInt (kk # ks) s =
     (case map_of (visibleCells_v3 s) kk of
        None \<Rightarrow> Inl TypeError
      | Some cv \<Rightarrow>
          destroy_stale_v3 cfg numStr parseInt ks
            (s\<lparr>effects_v3 := effects_v3 s @ [ViewDestroyed kk],
               visibleCells_v3 := AList.delete kk (visibleCells_v3 s),
               overrides_v3 :=
                 (if MEMORYLESS cfg
                  then AList.delete (evicted_key_v3 numStr parseInt kk) (overrides_v3 s)
                  else overrides_v3 s)\<rparr>))"

definition syncGridToPlayerWindow_v3 ::
  "config \<Rightarrow> (real \<Rightarrow> string) \<Rightarrow> (string \<Rightarrow> real option) \<Rightarrow> state_v3 \<Rightarrow> error + state_v3" where
  "syncGridToPlayerWindow_v3 cfg numStr parseInt s =
     (let rng = playerVisibleCellRange_v3 s;
          stale = remdups (map fst (visibleCells_v3 s));
          (stale', s1) =
            for_up (minRow_v3 rng) (maxRow_v3 rng)
              (\<lambda>r. for_up (minCol_v3 rng) (maxCol_v3 rng) (\<lambda>c. sync_cell_v3 numStr r c))
              (stale, s)
      in destroy_stale_v3 cfg numStr parseInt stale' s1)"

text \<open>The keys the two loops of that sync visit, in the order of the visits.\<close>

definition window_keys_v3 :: "(real \<Rightarrow> string) \<Rightarrow> RealRange \<Rightarrow> CellKey list" where
  "window_keys_v3 numStr rng =
     for_up (minRow_v3 rng) (maxRow_v3 rng)
       (\<lambda>r. for_up (minCol_v3 rng) (maxCol_v3 rng) (\<lambda>c ks. ks @ [keyOf_v3 numStr r c]))
       []"

text \<open>
  What the two loops keep true of the stale keys and of the state, once the keys \<open>ks\<close> have
  been visited (for the proofs).
\<close>

definition sync_rel_v3 :: "state_v3 \<Rightarrow> CellKey list \<times> state_v3 \<Rightarrow> CellKey list \<Rightarrow> bool" where
  "sync_rel_v3 s = (\<lambda>(stale, s') ks.
     stale = filter (\<lambda>k. k \<notin> set ks) (remdups (map fst (visibleCells_v3 s))) \<and>
     fst ` set (visibleCells_v3 s') = fst ` set (visibleCells_v3 s) \<union> set ks \<and>
     overrides_v3 s' = overrides_v3 s \<and> inventory_v3 s' = inventory_v3 s \<and>
     playerCell_v3 s' = playerCell_v3 s)"

subsection \<open>States and bounds for the examples\<close>

text \<open>
  \<open>demo_state\<close> is the state of a fresh page: no override, empty hand, player on the
  classroom cell, nothing drawn. \<open>point_bounds\<close> is a viewport shrunk to the classroom
  point, whose window is empty (its minimum row is 8, its maximum row -8).
\<close>

definition demo_state :: game_state where
  "demo_state =
     \<lparr>tokenStore = [], inventory = None, playerCell = \<lparr>row = 0, col = 0\<rparr>,
      currentMovementMode = buttons, lastMemento = None, saveTimer = False,
      visibleCells = [], effects = []\<rparr>"

definition point_bounds :: LatLngBounds where
  "point_bounds =
     \<lparr>south = CLASSROOM_lat, west = CLASSROOM_lng, north = CLASSROOM_lat, east = CLASSROOM_lng\<rparr>"

definition two_views :: "(CellKey \<times> CellView) list" where
  "two_views =
     [(cellKeyFromRC 0 0, \<lparr>cv_row = 0, cv_col = 0\<rparr>),
      (cellKeyFromRC 0 1, \<lparr>cv_row = 0, cv_col = 1\<rparr>)]"

text \<open>
  \<open>demo_bounds\<close> is a viewport whose window is rows -2 to 2 and columns -3 to 3;
  the window of \<open>far_bounds\<close> is rows 3 to 7 and columns 2 to 8. \<open>evict_state\<close> has the
  cell (5, 5) drawn and overridden with 16.
\<close>

definition demo_bounds :: LatLngBounds where
  "demo_bounds =
     \<lparr>south = CLASSROOM_lat - 10 * CELL_DEG, west = CLASSROOM_lng - 28 * CELL_DEG,
      north = CLASSROOM_lat + 21 / 2 * CELL_DEG, east = CLASSROOM_lng + 57 / 2 * CELL_DEG\<rparr>"

definition far_bounds :: LatLngBounds where
  "far_bounds =
     \<lparr>south = CLASSROOM_lat - 5 * CELL_DEG, west = CLASSROOM_lng - 23 * CELL_DEG,
      north = CLASSROOM_lat + 31 / 2 * CELL_DEG, east = CLASSROOM_lng + 67 / 2 * CELL_DEG\<rparr>"

definition evict_state :: game_state where
  "evict_state =
     demo_state\<lparr>tokenStore := [(cellKeyFromRC 5 5, 16)],
                 visibleCells := [(cellKeyFromRC 5 5, \<lparr>cv_row = 5, cv_col = 5\<rparr>)]\<rparr>"

text \<open>
  \<open>merge_state\<close> holds 32 in hand next to a cell (0, 0) overridden with 32, one merge away
  from the threshold of \<open>config_v3\<close>.
\<close>

definition merge_state :: game_state where
  "merge_state = demo_state\<lparr>tokenStore := [(cellKeyFromRC 0 0, 32)], inventory := Some 32\<rparr>"

text \<open>The first revision's fresh page.\<close>

definition demo_state_v1 :: state_v1 where
  "demo_state_v1 = \<lparr>overrides = [], inventory_v1 = None, d3_state = None, alerts_v1 = []\<rparr>"



text \<open>
  \<open>saved_state\<close> is a small game in progress. \<open>crowded_state\<close> has 20000 overrides, the
  cells (0, 0) to (0, 19999) at 16; its snapshot is longer than the size guard allows.
\<close>

definition saved_state :: game_state where
  "saved_state =
     demo_state\<lparr>tokenStore := [(cellKeyFromRC 0 (-2), 0), (cellKeyFromRC 1 1, 4)],
                 inventory := Some 2, playerCell := \<lparr>row = 1, col = 0\<rparr>\<rparr>"

fun crowded_tokens :: "nat \<Rightarrow> (CellKey \<times> int) list" where
  "crowded_tokens 0 = []"
| "crowded_tokens (Suc n) = (cellKeyFromRC 0 (int n), 16) # crowded_tokens n"

definition crowded_state :: game_state where
  "crowded_state = demo_state\<lparr>tokenStore := crowded_tokens 20000\<rparr>"

section \<open>Properties\<close>

subsection \<open>The key encoding is injective\<close>

lemma digit_cases:
  "d < 10 \<Longrightarrow> d = 0 \<or> d = 1 \<or> d = 2 \<or> d = 3 \<or> d = 4 \<or> d = 5 \<or> d = 6 \<or> d = 7 \<or> d = 8 \<or> d = (9::nat)"
  by arith

lemma digit_char_simps:
  "digit_char 0 = CHR ''0''" "digit_char 1 = CHR ''1''" "digit_char 2 = CHR ''2''"
  "digit_char 3 = CHR ''3''" "digit_char 4 = CHR ''4''" "digit_char 5 = CHR ''5''"
  "digit_char 6 = CHR ''6''" "digit_char 7 = CHR ''7''" "digit_char 8 = CHR ''8''"
  "digit_char 9 = CHR ''9''" "digit_char (Suc 0) = CHR ''1''"
  by (simp_all add: digit_char_def)

lemma digit_char_not_sep: "d < 10 \<Longrightarrow> digit_char d \<noteq> CHR '':'' \<and> digit_char d \<noteq> CHR ''-''"
  using digit_cases [of d] by (auto simp: digit_char_simps)

lemma digit_char_inj: "a < 10 \<Longrightarrow> b < 10 \<Longrightarrow> digit_char a = digit_char b \<Longrightarrow> a = b"
  using digit_cases [of a] digit_cases [of b] by (auto simp: digit_char_simps)

lemma nat_str_nonempty: "nat_str n \<noteq> []"
  by (subst nat_str.simps) simp


lemma nat_str_small: "n < 10 \<Longrightarrow> nat_str n = [digit_char n]"
  by (simp add: nat_str.simps [of n])

lemma nat_str_big: "\<not> n < 10 \<Longrightarrow> nat_str n = nat_str (n div 10) @ [digit_char (n mod 10)]"
  by (simp add: nat_str.simps [of n])

lemma nat_str_chars: "ch \<in> set (nat_str n) \<Longrightarrow> ch \<noteq> CHR '':'' \<and> ch \<noteq> CHR ''-''"
proof (induction n rule: nat_str.induct)
  case (1 n)
  show ?case
  proof (cases "n < 10")
    case True
    with "1.prems" have "ch = digit_char n" by (simp add: nat_str_small)
    with True show ?thesis using digit_char_not_sep by simp
  next
    case False
    with "1.prems" have "ch \<in> set (nat_str (n div 10)) \<or> ch = digit_char (n mod 10)"
      by (auto simp: nat_str_big)
    then show ?thesis
    proof
      assume "ch \<in> set (nat_str (n div 10))"
      with "1.IH" False show ?thesis by simp
    next
      assume "ch = digit_char (n mod 10)"
      then show ?thesis using digit_char_not_sep [of "n mod 10"] by simp
    qed
  qed
qed

lemma nat_str_inj: "nat_str n = nat_str m \<Longrightarrow> n = m"
proof (induction n arbitrary: m rule: nat_str.induct)
  case (1 n)
  show ?case
  proof (cases "n < 10")
    case n: True
    show ?thesis
    proof (cases "m < 10")
      case True
      with n "1.prems" have "digit_char n = digit_char m"
        by (simp add: nat_str_small nat_str_big)
      with n True show ?thesis by (rule digit_char_inj)
    next
      case False
      with n "1.prems" have "[digit_char n] = nat_str (m div 10) @ [digit_char (m mod 10)]"
        by (simp add: nat_str_small nat_str_big)
      then show ?thesis using nat_str_nonempty [of "m div 10"] by simp
    qed
  next
    case n: False
    show ?thesis
    proof (cases "m < 10")
      case True
      with n "1.prems" have "nat_str (n div 10) @ [digit_char (n mod 10)] = [digit_char m]"
        by (simp add: nat_str_small nat_str_big)
      then show ?thesis using nat_str_nonempty [of "n div 10"] by simp
    next
      case False
      with n "1.prems" have e: "nat_str (n div 10) = nat_str (m div 10)"
        and d: "digit_char (n mod 10) = digit_char (m mod 10)"
        by (simp_all add: nat_str_small nat_str_big)
      from "1.IH" [OF n e] have "n div 10 = m div 10" .
      moreover from d have "n mod 10 = m mod 10" by (intro digit_char_inj) simp_all
      ultimately show ?thesis by (metis div_mult_mod_eq)
    qed
  qed
qed

lemma num_str_chars: "CHR '':'' \<notin> set (num_str i)"
proof
  assume a: "CHR '':'' \<in> set (num_str i)"
  show False
  proof (cases "i < 0")
    case True
    with a have "CHR '':'' \<in> set (nat_str (nat (- i)))" by (simp add: num_str_def)
    then show False using nat_str_chars by blast
  next
    case False
    with a have "CHR '':'' \<in> set (nat_str (nat i))" by (simp add: num_str_def)
    then show False using nat_str_chars by blast
  qed
qed

lemma hd_nat_str: "hd (nat_str n) \<noteq> CHR ''-''"
proof -
  have "hd (nat_str n) \<in> set (nat_str n)" using nat_str_nonempty by simp
  then show ?thesis using nat_str_chars by blast
qed

lemma num_str_inj: "num_str i = num_str j \<Longrightarrow> i = j"
proof -
  assume e: "num_str i = num_str j"
  show "i = j"
  proof (cases "i < 0")
    case i: True
    show ?thesis
    proof (cases "j < 0")
      case True
      with i e have "nat_str (nat (- i)) = nat_str (nat (- j))" by (simp add: num_str_def)
      then have "nat (- i) = nat (- j)" by (rule nat_str_inj)
      with i True show ?thesis by simp
    next
      case False
      with i e have "CHR ''-'' # nat_str (nat (- i)) = nat_str (nat j)" by (simp add: num_str_def)
      then have "hd (nat_str (nat j)) = CHR ''-''" by (metis list.sel(1))
      with hd_nat_str show ?thesis by blast
    qed
  next
    case i: False
    show ?thesis
    proof (cases "j < 0")
      case True
      with i e have "nat_str (nat i) = CHR ''-'' # nat_str (nat (- j))" by (simp add: num_str_def)
      then have "hd (nat_str (nat i)) = CHR ''-''" by simp
      with hd_nat_str show ?thesis by blast
    next
      case False
      with i e have "nat_str (nat i) = nat_str (nat j)" by (simp add: num_str_def)
      then have "nat i = nat j" by (rule nat_str_inj)
      with i False show ?thesis by simp
    qed
  qed
qed

lemma split_at_sep:
  "x \<notin> set a \<Longrightarrow> x \<notin> set a' \<Longrightarrow> a @ x # b = a' @ x # b' \<Longrightarrow> a = a' \<and> b = b'"
proof (induction a arbitrary: a')
  case Nil
  then show ?case by (cases a') auto
next
  case (Cons y ys)
  then show ?case by (cases a') auto
qed

lemma cellKeyFromRC_inj:
  "cellKeyFromRC r c = cellKeyFromRC r' c' \<Longrightarrow> r = r' \<and> c = c'"
proof -
  assume "cellKeyFromRC r c = cellKeyFromRC r' c'"
  then have "num_str r @ CHR '':'' # num_str c = num_str r' @ CHR '':'' # num_str c'"
    by (simp add: cellKeyFromRC_def)
  then have "num_str r = num_str r' \<and> num_str c = num_str c'"
    by (rule split_at_sep [OF num_str_chars num_str_chars])
  then show ?thesis using num_str_inj by blast
qed

subsection \<open>The loops of the sync\<close>

lemma fold_product:
  "fold (\<lambda>r. fold (f r) cs) rs = fold (\<lambda>(r, c). f r c) (List.product rs cs)"
  by (induction rs) (simp_all add: fold_map comp_def)

lemma sync_cell_eq:
  "sync_cell r c (stale, s) =
     (removeAll (cellKeyFromRC r c) stale,
      if cellKeyFromRC r c \<in> fst ` set (visibleCells s) then s
      else s\<lparr>visibleCells := AList.update (cellKeyFromRC r c) \<lparr>cv_row = r, cv_col = c\<rparr> (visibleCells s),
             effects := effects s @ [ViewCreated (cellKeyFromRC r c)]\<rparr>)"
proof (cases "map_of (visibleCells s) (cellKeyFromRC r c)")
  case None
  then have "cellKeyFromRC r c \<notin> fst ` set (visibleCells s)" by (simp add: map_of_eq_None_iff)
  with None show ?thesis by (simp add: sync_cell_def Let_def)
next
  case (Some cv)
  then have "cellKeyFromRC r c \<in> fst ` set (visibleCells s)"
    by (metis map_of_eq_None_iff option.distinct(1))
  with Some show ?thesis by (simp add: sync_cell_def Let_def)
qed

lemma sync_cells_Nil: "sync_cells [] p = p"
  by (simp add: sync_cells_def)

lemma sync_cells_Cons: "sync_cells ((r, c) # cells) (stale, s) = sync_cells cells (sync_cell r c (stale, s))"
  by (simp add: sync_cells_def)

lemma sync_cells_stale:
  "fst (sync_cells cells (stale, s)) = filter (\<lambda>k. k \<notin> set (map (\<lambda>(r, c). cellKeyFromRC r c) cells)) stale"
proof (induction cells arbitrary: stale s)
  case Nil
  show ?case by (simp add: sync_cells_Nil)
next
  case (Cons rc cells)
  obtain r c where rc: "rc = (r, c)" by (cases rc)
  show ?case
    unfolding rc sync_cells_Cons sync_cell_eq
    by (auto simp: Cons.IH removeAll_filter_not_eq intro!: filter_cong)
qed

lemma sync_cells_frame:
  "tokenStore (snd (sync_cells cells (stale, s))) = tokenStore s \<and>
   inventory (snd (sync_cells cells (stale, s))) = inventory s \<and>
   playerCell (snd (sync_cells cells (stale, s))) = playerCell s \<and>
   currentMovementMode (snd (sync_cells cells (stale, s))) = currentMovementMode s \<and>
   lastMemento (snd (sync_cells cells (stale, s))) = lastMemento s \<and>
   saveTimer (snd (sync_cells cells (stale, s))) = saveTimer s"
proof (induction cells arbitrary: stale s)
  case Nil
  show ?case by (simp add: sync_cells_Nil)
next
  case (Cons rc cells)
  obtain r c where rc: "rc = (r, c)" by (cases rc)
  show ?case
    unfolding rc sync_cells_Cons sync_cell_eq
    by (simp add: Cons.IH)
qed

lemma sync_cells_keys:
  "fst ` set (visibleCells (snd (sync_cells cells (stale, s)))) =
     fst ` set (visibleCells s) \<union> set (map (\<lambda>(r, c). cellKeyFromRC r c) cells)"
proof (induction cells arbitrary: stale s)
  case Nil
  show ?case by (simp add: sync_cells_Nil)
next
  case (Cons rc cells)
  obtain r c where rc: "rc = (r, c)" by (cases rc)
  show ?case
    unfolding rc sync_cells_Cons sync_cell_eq
    by (auto simp: Cons.IH dom_update)
qed

lemma sync_cells_present:
  "set (map (\<lambda>(r, c). cellKeyFromRC r c) cells) \<subseteq> fst ` set (visibleCells s) \<Longrightarrow>
   snd (sync_cells cells (stale, s)) = s"
proof (induction cells arbitrary: stale s)
  case Nil
  show ?case by (simp add: sync_cells_Nil)
next
  case (Cons rc cells)
  obtain r c where rc: "rc = (r, c)" by (cases rc)
  from Cons.prems have a: "cellKeyFromRC r c \<in> fst ` set (visibleCells s)"
    and b: "set (map (\<lambda>(r, c). cellKeyFromRC r c) cells) \<subseteq> fst ` set (visibleCells s)"
    by (simp_all add: rc)
  show ?case
    unfolding rc sync_cells_Cons sync_cell_eq using a Cons.IH [OF b] by simp
qed

lemma sync_cells_effects:
  "\<exists>ks. effects (snd (sync_cells cells (stale, s))) = effects s @ map ViewCreated ks \<and>
        set ks = set (map (\<lambda>(r, c). cellKeyFromRC r c) cells) - fst ` set (visibleCells s)"
proof (induction cells arbitrary: stale s)
  case Nil
  show ?case by (simp add: sync_cells_Nil)
next
  case (Cons rc cells)
  obtain r c where rc: "rc = (r, c)" by (cases rc)
  let ?kk = "cellKeyFromRC r c"
  show ?case
  proof (cases "?kk \<in> fst ` set (visibleCells s)")
    case True
    from Cons.IH [of "removeAll ?kk stale" s] obtain ks where
      "effects (snd (sync_cells cells (removeAll ?kk stale, s))) = effects s @ map ViewCreated ks"
      "set ks = set (map (\<lambda>(r, c). cellKeyFromRC r c) cells) - fst ` set (visibleCells s)"
      by blast
    with True show ?thesis
      unfolding rc sync_cells_Cons sync_cell_eq by (intro exI [of _ ks]) auto
  next
    case False
    let ?s1 = "s\<lparr>visibleCells := AList.update ?kk \<lparr>cv_row = r, cv_col = c\<rparr> (visibleCells s),
             effects := effects s @ [ViewCreated ?kk]\<rparr>"
    from Cons.IH [of "removeAll ?kk stale" ?s1] obtain ks where
      "effects (snd (sync_cells cells (removeAll ?kk stale, ?s1))) = effects ?s1 @ map ViewCreated ks"
      "set ks = set (map (\<lambda>(r, c). cellKeyFromRC r c) cells) - fst ` set (visibleCells ?s1)"
      by blast
    with False show ?thesis
      unfolding rc sync_cells_Cons sync_cell_eq by (intro exI [of _ "?kk # ks"]) (auto simp: dom_update)
  qed
qed


lemma delete_filter: "AList.delete k al = filter (\<lambda>p. fst p \<noteq> k) al"
  by (induction al) (auto simp: AList.delete_eq)

lemma destroy_stale_result:
  "distinct ks \<Longrightarrow> set ks \<subseteq> fst ` set (visibleCells s) \<Longrightarrow>
   \<exists>s'. destroy_stale cfg ks s = Inr s' \<and>
        visibleCells s' = filter (\<lambda>p. fst p \<notin> set ks) (visibleCells s) \<and>
        effects s' = effects s @ map ViewDestroyed ks \<and>
        tokenStore s' = (if MEMORYLESS cfg then filter (\<lambda>p. fst p \<notin> set ks) (tokenStore s)
                         else tokenStore s) \<and>
        inventory s' = inventory s \<and> playerCell s' = playerCell s \<and>
        currentMovementMode s' = currentMovementMode s \<and>
        lastMemento s' = lastMemento s \<and> saveTimer s' = saveTimer s"
proof (induction ks arbitrary: s)
  case Nil
  show ?case by simp
next
  case (Cons kk ks)
  let ?s1 = "s\<lparr>effects := effects s @ [ViewDestroyed kk],
               visibleCells := AList.delete kk (visibleCells s),
               tokenStore := (if MEMORYLESS cfg then AList.delete kk (tokenStore s)
                              else tokenStore s)\<rparr>"
  from Cons.prems have kk: "kk \<in> fst ` set (visibleCells s)" and nin: "kk \<notin> set ks"
    and d: "distinct ks" and sub: "set ks \<subseteq> fst ` set (visibleCells s)"
    by simp_all
  from kk obtain cv where cv: "map_of (visibleCells s) kk = Some cv"
    by (metis map_of_eq_None_iff not_Some_eq)
  have sub1: "set ks \<subseteq> fst ` set (visibleCells ?s1)"
    using sub nin by (auto simp: delete_filter)
  from Cons.IH [OF d sub1] obtain s' where s':
    "destroy_stale cfg ks ?s1 = Inr s'"
    "visibleCells s' = filter (\<lambda>p. fst p \<notin> set ks) (visibleCells ?s1)"
    "effects s' = effects ?s1 @ map ViewDestroyed ks"
    "tokenStore s' = (if MEMORYLESS cfg then filter (\<lambda>p. fst p \<notin> set ks) (tokenStore ?s1)
                         else tokenStore ?s1)"
    "inventory s' = inventory ?s1" "playerCell s' = playerCell ?s1"
    "currentMovementMode s' = currentMovementMode ?s1"
    "lastMemento s' = lastMemento ?s1" "saveTimer s' = saveTimer ?s1"
    by blast
  have f: "\<And>al :: (string \<times> 'a) list. filter (\<lambda>p. fst p \<notin> set ks) (filter (\<lambda>p. fst p \<noteq> kk) al)
       = filter (\<lambda>p. fst p \<notin> set (kk # ks)) al"
    by (auto intro: filter_cong)
  show ?case
  proof (intro exI [of _ s'] conjI)
    show "destroy_stale cfg (kk # ks) s = Inr s'" using cv s'(1) by simp
    show "visibleCells s' = filter (\<lambda>p. fst p \<notin> set (kk # ks)) (visibleCells s)"
      using s'(2) f [of "visibleCells s"] by (simp add: delete_filter)
    show "effects s' = effects s @ map ViewDestroyed (kk # ks)" using s'(3) by simp
    show "tokenStore s' = (if MEMORYLESS cfg then filter (\<lambda>p. fst p \<notin> set (kk # ks)) (tokenStore s)
                         else tokenStore s)"
      using s'(4) f [of "tokenStore s"] by (simp add: delete_filter)
  qed (use s' in simp_all)
qed

text \<open>The sync, written with the pass over the window's cells and the stale keys it leaves.\<close>

lemma sync_unfold:
  "syncGridToPlayerWindow cfg bounds s =
     destroy_stale cfg
       (filter (\<lambda>k. k \<notin> set (window_keys (playerVisibleCellRange bounds)))
          (remdups (map fst (visibleCells s))))
       (snd (sync_cells (window_cells (playerVisibleCellRange bounds))
               (remdups (map fst (visibleCells s)), saveMemento cfg s)))"
proof -
  have v: "visibleCells (saveMemento cfg s) = visibleCells s"
    by (simp add: saveMemento_def scheduleStateSave_def)
  show ?thesis
    unfolding syncGridToPlayerWindow_def Let_def fold_product
    by (simp add: v split_beta sync_cells_def [symmetric] window_cells_def [symmetric]
        sync_cells_stale window_keys_def)
qed

lemma saveMemento_fields:
  "tokenStore (saveMemento cfg s) = tokenStore s"
  "inventory (saveMemento cfg s) = inventory s"
  "playerCell (saveMemento cfg s) = playerCell s"
  "currentMovementMode (saveMemento cfg s) = currentMovementMode s"
  "visibleCells (saveMemento cfg s) = visibleCells s"
  "effects (saveMemento cfg s) = effects s"
  by (simp_all add: saveMemento_def scheduleStateSave_def)

lemma sync_result:
  "\<exists>s' cs. syncGridToPlayerWindow cfg bounds s = Inr s' \<and>
     fst ` set (visibleCells s') = set (window_keys (playerVisibleCellRange bounds)) \<and>
     effects s' = effects s @ map ViewCreated cs @ map ViewDestroyed
        (filter (\<lambda>k. k \<notin> set (window_keys (playerVisibleCellRange bounds)))
          (remdups (map fst (visibleCells s)))) \<and>
     set cs = set (window_keys (playerVisibleCellRange bounds)) - fst ` set (visibleCells s) \<and>
     tokenStore s' =
       (if MEMORYLESS cfg
        then filter (\<lambda>p. fst p \<notin> fst ` set (visibleCells s) - set (window_keys (playerVisibleCellRange bounds)))
               (tokenStore s)
        else tokenStore s) \<and>
     inventory s' = inventory s \<and> playerCell s' = playerCell s \<and>
     currentMovementMode s' = currentMovementMode s"
proof -
  let ?wk = "window_keys (playerVisibleCellRange bounds)"
  let ?cells = "window_cells (playerVisibleCellRange bounds)"
  let ?old = "remdups (map fst (visibleCells s))"
  let ?st = "filter (\<lambda>k. k \<notin> set ?wk) ?old"
  let ?s1 = "snd (sync_cells ?cells (?old, saveMemento cfg s))"
  have wk: "?wk = map (\<lambda>(r, c). cellKeyFromRC r c) ?cells" by (simp add: window_keys_def)
  have keys1: "fst ` set (visibleCells ?s1) = fst ` set (visibleCells s) \<union> set ?wk"
    unfolding wk sync_cells_keys by (simp add: saveMemento_fields)
  have d: "distinct ?st" by simp
  have sub: "set ?st \<subseteq> fst ` set (visibleCells ?s1)" unfolding keys1 by auto
  from destroy_stale_result [OF d sub, of cfg] obtain s' where s':
    "destroy_stale cfg ?st ?s1 = Inr s'"
    "visibleCells s' = filter (\<lambda>p. fst p \<notin> set ?st) (visibleCells ?s1)"
    "effects s' = effects ?s1 @ map ViewDestroyed ?st"
    "tokenStore s' = (if MEMORYLESS cfg then filter (\<lambda>p. fst p \<notin> set ?st) (tokenStore ?s1)
                         else tokenStore ?s1)"
    "inventory s' = inventory ?s1" "playerCell s' = playerCell ?s1"
    "currentMovementMode s' = currentMovementMode ?s1"
    by blast
  from sync_cells_effects [of ?cells ?old "saveMemento cfg s"] obtain cs where cs:
    "effects ?s1 = effects (saveMemento cfg s) @ map ViewCreated cs"
    "set cs = set ?wk - fst ` set (visibleCells (saveMemento cfg s))"
    unfolding wk by blast
  note fr = sync_cells_frame [of ?cells ?old "saveMemento cfg s"]
  have st_set: "set ?st = fst ` set (visibleCells s) - set ?wk" by auto
  show ?thesis
  proof (intro exI [of _ s'] exI [of _ cs] conjI)
    show "syncGridToPlayerWindow cfg bounds s = Inr s'" using s'(1) by (simp add: sync_unfold)
    have "fst ` set (visibleCells s') = fst ` set (visibleCells ?s1) - set ?st"
      unfolding s'(2) by force
    then show "fst ` set (visibleCells s') = set ?wk" unfolding keys1 st_set by blast
    show "effects s' = effects s @ map ViewCreated cs @ map ViewDestroyed ?st"
      using s'(3) cs(1) by (simp add: saveMemento_fields)
    show "set cs = set ?wk - fst ` set (visibleCells s)" using cs(2) by (simp add: saveMemento_fields)
    show "tokenStore s' = (if MEMORYLESS cfg
        then filter (\<lambda>p. fst p \<notin> fst ` set (visibleCells s) - set ?wk) (tokenStore s)
        else tokenStore s)"
      using s'(4) fr unfolding st_set by (simp add: saveMemento_fields)
    show "inventory s' = inventory s" using s'(5) fr by (simp add: saveMemento_fields)
    show "playerCell s' = playerCell s" using s'(6) fr by (simp add: saveMemento_fields)
    show "currentMovementMode s' = currentMovementMode s" using s'(7) fr by (simp add: saveMemento_fields)
  qed
qed


subsection \<open>Effective values and cell centres\<close>


lemma setEffectiveValue_fields:
  "inventory (setEffectiveValue cfg luck r c v s) = inventory s"
  "playerCell (setEffectiveValue cfg luck r c v s) = playerCell s"
  "currentMovementMode (setEffectiveValue cfg luck r c v s) = currentMovementMode s"
  "visibleCells (setEffectiveValue cfg luck r c v s) = visibleCells s"
  "effects (setEffectiveValue cfg luck r c v s) = effects s"
  by (simp_all add: setEffectiveValue_def Let_def saveMemento_fields)

lemma cellCenterLatLng_eq:
  "lat (cellCenterLatLng r c) = CLASSROOM_lat + (of_int r + 1 / 2) * CELL_DEG"
  "lng (cellCenterLatLng r c) = CLASSROOM_lng + (of_int c + 1 / 2) * CELL_DEG"
  by (simp_all add: cellCenterLatLng_def getCenter_def cellBounds_def field_simps)

lemma floor_cell: "\<lfloor>(x0 + (of_int i + 1 / 2) * CELL_DEG - x0) / CELL_DEG\<rfloor> = i"
proof -
  have pos: "CELL_DEG > 0" by (simp add: CELL_DEG_def)
  then have "(x0 + (of_int i + 1 / 2) * CELL_DEG - x0) / CELL_DEG = of_int i + 1 / 2" by simp
  moreover have "\<lfloor>of_int i + (1 / 2 :: real)\<rfloor> = i" by linarith
  ultimately show ?thesis by simp
qed

lemma latLngToCell_center:
  "latLngToCell (lat (cellCenterLatLng r c)) (lng (cellCenterLatLng r c)) = \<lparr>row = r, col = c\<rparr>"
  unfolding latLngToCell_def Let_def cellCenterLatLng_eq floor_cell ..


lemma product_Nil2: "List.product xs [] = []"
  by (induction xs) simp_all

lemma window_cells_empty:
  "minRow rng > maxRow rng \<or> minCol rng > maxCol rng \<Longrightarrow> window_cells rng = []"
  by (auto simp: window_cells_def product_Nil2)

subsection \<open>Facts the claims rest on\<close>

lemma map_of_filter_keys:
  "map_of (filter (\<lambda>p. fst p \<notin> A) ts) k = (if k \<in> A then None else map_of ts k)"
  by (induction ts) auto

lemma map_of_filter_None: "map_of ts k = None \<Longrightarrow> map_of (filter P ts) k = None"
  by (induction ts) (auto split: if_splits)

lemma set_window_cells:
  "set (window_cells rng) = {(r, c). minRow rng \<le> r \<and> r \<le> maxRow rng \<and> minCol rng \<le> c \<and> c \<le> maxCol rng}"
  by (auto simp: window_cells_def)

lemma window_keys_mem:
  "cellKeyFromRC r c \<in> set (window_keys rng) \<longleftrightarrow>
     minRow rng \<le> r \<and> r \<le> maxRow rng \<and> minCol rng \<le> c \<and> c \<le> maxCol rng"
proof
  assume "cellKeyFromRC r c \<in> set (window_keys rng)"
  then obtain r' c' where rc: "(r', c') \<in> set (window_cells rng)" "cellKeyFromRC r c = cellKeyFromRC r' c'"
    by (auto simp: window_keys_def)
  from rc(2) have "r = r' \<and> c = c'" by (rule cellKeyFromRC_inj)
  with rc(1) show "minRow rng \<le> r \<and> r \<le> maxRow rng \<and> minCol rng \<le> c \<and> c \<le> maxCol rng"
    by (simp add: set_window_cells)
next
  assume "minRow rng \<le> r \<and> r \<le> maxRow rng \<and> minCol rng \<le> c \<and> c \<le> maxCol rng"
  then have "(r, c) \<in> set (window_cells rng)" by (simp add: set_window_cells)
  then show "cellKeyFromRC r c \<in> set (window_keys rng)" by (force simp: window_keys_def)
qed

lemma sync_keeps_absent:
  "map_of (tokenStore s) k = None \<Longrightarrow>
   \<exists>s'. syncGridToPlayerWindow cfg bounds s = Inr s' \<and> map_of (tokenStore s') k = None"
proof -
  assume a: "map_of (tokenStore s) k = None"
  from sync_result [of cfg bounds s] obtain s' where
    "syncGridToPlayerWindow cfg bounds s = Inr s'"
    "tokenStore s' =
       (if MEMORYLESS cfg
        then filter (\<lambda>p. fst p \<notin> fst ` set (visibleCells s) - set (window_keys (playerVisibleCellRange bounds)))
               (tokenStore s)
        else tokenStore s)"
    by blast
  moreover from this(2) a have "map_of (tokenStore s') k = None"
    by (cases "MEMORYLESS cfg") (simp_all add: map_of_filter_None)
  ultimately show ?thesis by blast
qed

lemma demo_range: "playerVisibleCellRange demo_bounds = \<lparr>minRow = -2, maxRow = 2, minCol = -3, maxCol = 3\<rparr>"
  by (simp add: playerVisibleCellRange_def demo_bounds_def latLngToCell_def Let_def VIEW_RADIUS_def
        INTERACT_RANGE_def CELL_DEG_def)

lemma far_range: "playerVisibleCellRange far_bounds = \<lparr>minRow = 3, maxRow = 7, minCol = 2, maxCol = 8\<rparr>"
  by (simp add: playerVisibleCellRange_def far_bounds_def latLngToCell_def Let_def VIEW_RADIUS_def
        INTERACT_RANGE_def CELL_DEG_def)

lemma checkWin_fields:
  "inventory (checkWin cfg s) = inventory s"
  "tokenStore (checkWin cfg s) = tokenStore s"
  "playerCell (checkWin cfg s) = playerCell s"
  "effects (checkWin cfg s) =
     effects s @ (case inventory s of Some h \<Rightarrow> if TARGET cfg \<le> h then [WinAlert h] else [] | None \<Rightarrow> [])"
  by (simp_all add: checkWin_def split: option.splits)

lemma handleCellClick_effects:
  "effects (handleCellClick cfg luck r c s) =
     effects s @
       (case inventory (handleCellClick cfg luck r c s) of
          Some h \<Rightarrow>
            if inventory (handleCellClick cfg luck r c s) \<noteq> inventory s \<and> TARGET cfg \<le> h
            then [WinAlert h] else []
        | None \<Rightarrow> [])"
  by (auto simp: handleCellClick_def Let_def checkWin_fields setEffectiveValue_fields
      split: option.splits)

lemma handleMovementPosition_result:
  "\<exists>s' cs ds. handleMovementPosition cfg bounds la lo s = Inr s' \<and> inventory s' = inventory s \<and>
     tokenStore s' =
       (if MEMORYLESS cfg
        then filter (\<lambda>p. fst p \<notin> fst ` set (visibleCells s) - set (window_keys (playerVisibleCellRange bounds)))
               (tokenStore s)
        else tokenStore s) \<and>
     playerCell s' = latLngToCell la lo \<and>
     effects s' = effects s @ map ViewCreated cs @ map ViewDestroyed ds @
       (case inventory s of Some h \<Rightarrow> if TARGET cfg \<le> h then [WinAlert h] else [] | None \<Rightarrow> [])"
proof -
  let ?s0 = "s\<lparr>playerCell := latLngToCell la lo\<rparr>"
  from sync_result [of cfg bounds ?s0] obtain s' cs where s':
    "syncGridToPlayerWindow cfg bounds ?s0 = Inr s'"
    "effects s' = effects ?s0 @ map ViewCreated cs @ map ViewDestroyed
        (filter (\<lambda>k. k \<notin> set (window_keys (playerVisibleCellRange bounds)))
          (remdups (map fst (visibleCells ?s0))))"
    "tokenStore s' =
       (if MEMORYLESS cfg
        then filter (\<lambda>p. fst p \<notin> fst ` set (visibleCells ?s0) - set (window_keys (playerVisibleCellRange bounds)))
               (tokenStore ?s0)
        else tokenStore ?s0)"
    "inventory s' = inventory ?s0" "playerCell s' = playerCell ?s0"
    by blast
  let ?ds = "filter (\<lambda>k. k \<notin> set (window_keys (playerVisibleCellRange bounds)))
          (remdups (map fst (visibleCells s)))"
  have "handleMovementPosition cfg bounds la lo s = Inr (checkWin cfg s')"
    using s'(1) by (simp add: handleMovementPosition_def Let_def)
  moreover have "inventory (checkWin cfg s') = inventory s"
    using s'(4) by (simp add: checkWin_fields)
  moreover have "tokenStore (checkWin cfg s') =
       (if MEMORYLESS cfg
        then filter (\<lambda>p. fst p \<notin> fst ` set (visibleCells s) - set (window_keys (playerVisibleCellRange bounds)))
               (tokenStore s)
        else tokenStore s)"
    using s'(3) by (simp add: checkWin_fields)
  moreover have "playerCell (checkWin cfg s') = latLngToCell la lo"
    using s'(5) by (simp add: checkWin_fields)
  moreover have "effects (checkWin cfg s') = effects s @ map ViewCreated cs @ map ViewDestroyed ?ds @
       (case inventory s of Some h \<Rightarrow> if TARGET cfg \<le> h then [WinAlert h] else [] | None \<Rightarrow> [])"
    using s'(2) s'(4) by (simp add: checkWin_fields)
  ultimately show ?thesis by blast
qed

lemma point_range: "playerVisibleCellRange point_bounds = \<lparr>minRow = 8, maxRow = -8, minCol = 25, maxCol = -25\<rparr>"
  by (simp add: playerVisibleCellRange_def point_bounds_def latLngToCell_def Let_def VIEW_RADIUS_def
        INTERACT_RANGE_def)

lemma base_0_0: "baseTokenValue luck_demo 0 0 = 0"
  by (simp add: baseTokenValue_def luck_demo_def num_str_def nat_str_small digit_char_simps)

lemma merge_click:
  "handleCellClick config_v3 luck_demo 0 0 merge_state =
     demo_state\<lparr>inventory := Some 64, saveTimer := True, effects := [WinAlert 64],
       lastMemento := Some \<lparr>tokens = [], m_inventory = Some 32, m_playerCell = \<lparr>row = 0, col = 0\<rparr>,
          movementMode = Some buttons, target = Some 64\<rparr>\<rparr>"
  by (simp add: handleCellClick_def merge_state_def demo_state_def inRange_def INTERACT_RANGE_def
      getEffectiveValue_def Let_def config_v3_def setEffectiveValue_def base_0_0 saveMemento_def
      scheduleStateSave_def serializeState_def checkWin_def)

lemma setEffectiveValue_tokenStore:
  "tokenStore (setEffectiveValue cfg luck r c v s) =
     (if v = baseTokenValue luck r c then AList.delete (cellKeyFromRC r c) (tokenStore s)
      else AList.update (cellKeyFromRC r c) v (tokenStore s))"
  by (simp add: setEffectiveValue_def Let_def saveMemento_fields)

lemma setEffectiveValue_minimal:
  assumes "store_minimal luck s"
  shows "store_minimal luck (setEffectiveValue cfg luck r c v s)"
  unfolding store_minimal_def
proof (intro allI)
  fix r' c'
  show "map_of (tokenStore (setEffectiveValue cfg luck r c v s)) (cellKeyFromRC r' c')
          \<noteq> Some (baseTokenValue luck r' c')"
  proof (cases "cellKeyFromRC r' c' = cellKeyFromRC r c")
    case True
    then have "r' = r \<and> c' = c" by (rule cellKeyFromRC_inj)
    then show ?thesis
      by (simp add: setEffectiveValue_tokenStore update_conv' delete_conv')
  next
    case False
    then show ?thesis
      using assms by (simp add: setEffectiveValue_tokenStore update_conv' delete_conv' store_minimal_def)
  qed
qed

lemma base_0_m2: "baseTokenValue luck_demo 0 (-2) = 2"
  by (simp add: baseTokenValue_def luck_demo_def num_str_def nat_str_small digit_char_simps)

lemma getEffectiveValue_v1_set:
  "getEffectiveValue_v1 luck (setEffectiveValue_v1 r c v s) r c = v"
  by (simp add: getEffectiveValue_v1_def setEffectiveValue_v1_def saveMemento_v1_def update_conv')












lemma update_append: "k \<notin> fst ` set al \<Longrightarrow> AList.update k v al = al @ [(k, v)]"
  by (induction al) auto

lemma fold_update_distinct:
  "distinct (map fst (acc @ ts)) \<Longrightarrow> fold (\<lambda>(k, v). AList.update k v) ts acc = acc @ ts"
proof (induction ts arbitrary: acc)
  case Nil
  show ?case by simp
next
  case (Cons kv ts)
  obtain k v where kv: "kv = (k, v)" by (cases kv)
  from Cons.prems have k: "k \<notin> fst ` set acc" and d: "distinct (map fst ((acc @ [(k, v)]) @ ts))"
    by (auto simp: kv)
  show ?case
    using Cons.IH [OF d] by (simp add: kv update_append [OF k])
qed

lemma map_of_fold_update:
  "distinct (map fst ts) \<Longrightarrow>
   map_of (fold (\<lambda>(k, v). AList.update k v) ts acc) = map_of acc ++ map_of ts"
proof (induction ts arbitrary: acc)
  case Nil
  show ?case by simp
next
  case (Cons kv ts)
  obtain k v where kv: "kv = (k, v)" by (cases kv)
  from Cons.prems have k: "k \<notin> fst ` set ts" and d: "distinct (map fst ts)"
    by (auto simp: kv)
  from k have n: "map_of ts k = None" by (simp add: map_of_eq_None_iff)
  have "map_of (fold (\<lambda>(k, v). AList.update k v) (kv # ts) acc)
      = (map_of acc)(k \<mapsto> v) ++ map_of ts"
    using Cons.IH [OF d, of "AList.update k v acc"] by (simp only: kv fold_simps prod.case update_conv')
  also have "\<dots> = map_of acc ++ map_of (kv # ts)"
    using n by (auto simp: kv map_add_def fun_eq_iff split: option.splits)
  finally show ?case .
qed

lemma restoreFromMemento_serializeState:
  "distinct (map fst (tokenStore s)) \<Longrightarrow>
   tokenStore (restoreFromMemento (serializeState cfg s) s0) = tokenStore s \<and>
   inventory (restoreFromMemento (serializeState cfg s) s0) = inventory s \<and>
   playerCell (restoreFromMemento (serializeState cfg s) s0) = playerCell s \<and>
   currentMovementMode (restoreFromMemento (serializeState cfg s) s0) = currentMovementMode s"
  using fold_update_distinct [of "[]" "tokenStore s"]
  by (simp add: restoreFromMemento_def serializeState_def split: option.splits)

lemma restoreFromMemento_any_order:
  "distinct (map fst (tokenStore s)) \<Longrightarrow> set ts = set (tokenStore s) \<Longrightarrow> distinct (map fst ts) \<Longrightarrow>
   map_of (tokenStore (restoreFromMemento ((serializeState cfg s)\<lparr>tokens := ts\<rparr>) s0)) = map_of (tokenStore s)"
proof -
  assume d: "distinct (map fst (tokenStore s))" and e: "set ts = set (tokenStore s)"
    and d': "distinct (map fst ts)"
  have "map_of (tokenStore (restoreFromMemento ((serializeState cfg s)\<lparr>tokens := ts\<rparr>) s0)) = map_of ts"
    using map_of_fold_update [OF d', of "[]"] by (simp add: restoreFromMemento_def)
  also have "\<dots> = map_of (tokenStore s)"
    using map_of_inject_set [OF d' d] e by simp
  finally show ?thesis .
qed

lemma read_lit_Nil [simp]: "read_lit [] s = Some s"
  by (simp add: read_lit_def)

lemma read_lit_Cons [simp]:
  "read_lit (c # lit) (d # s) = (if c = d then read_lit lit s else None)"
  by (simp add: read_lit_def)

lemma read_lit_Cons_Nil [simp]: "read_lit (c # lit) [] = None"
  by (simp add: read_lit_def)

lemma takeWhile_until: "x \<notin> set a \<Longrightarrow> takeWhile (\<lambda>ch. ch \<noteq> x) (a @ x # rest) = a"
  by (induction a) auto

lemma dropWhile_until: "x \<notin> set a \<Longrightarrow> dropWhile (\<lambda>ch. ch \<noteq> x) (a @ x # rest) = x # rest"
  by (induction a) auto

lemma is_digit_digit_char: "d < 10 \<Longrightarrow> is_digit (digit_char d)"
  using digit_cases [of d] by (auto simp: digit_char_simps is_digit_def)

lemma digit_val_digit_char: "d < 10 \<Longrightarrow> digit_val (digit_char d) = d"
  using digit_cases [of d] by (auto simp: digit_char_simps digit_val_def)

lemma nat_str_digits: "ch \<in> set (nat_str n) \<Longrightarrow> is_digit ch"
proof (induction n rule: nat_str.induct)
  case (1 n)
  show ?case
  proof (cases "n < 10")
    case True
    with "1.prems" show ?thesis by (simp add: nat_str_small is_digit_digit_char)
  next
    case False
    with "1.prems" have "ch \<in> set (nat_str (n div 10)) \<or> ch = digit_char (n mod 10)"
      by (auto simp: nat_str_big)
    then show ?thesis using "1.IH" [OF False] is_digit_digit_char [of "n mod 10"] by auto
  qed
qed

lemma nat_str_value: "foldl (\<lambda>a ch. 10 * a + digit_val ch) 0 (nat_str n) = n"
proof (induction n rule: nat_str.induct)
  case (1 n)
  show ?case
  proof (cases "n < 10")
    case True
    then show ?thesis by (simp add: nat_str_small digit_val_digit_char)
  next
    case False
    then show ?thesis using "1.IH" [OF False] by (simp add: nat_str_big digit_val_digit_char)
  qed
qed

lemma read_nat_nat_str:
  "ends_number rest \<Longrightarrow> read_nat (nat_str n @ rest) = Some (n, rest)"
proof -
  assume e: "ends_number rest"
  have all: "\<forall>ch \<in> set (nat_str n). is_digit ch" using nat_str_digits by blast
  have t: "takeWhile is_digit (nat_str n @ rest) = nat_str n"
    using all e by (cases rest) (auto simp: takeWhile_append2 ends_number_def)
  have d: "dropWhile is_digit (nat_str n @ rest) = rest"
    using all e by (cases rest) (auto simp: dropWhile_append2 ends_number_def)
  show ?thesis
    by (simp add: read_nat_def Let_def t d nat_str_value nat_str_nonempty)
qed

lemma read_int_num_str:
  "ends_number rest \<Longrightarrow> read_int (num_str i @ rest) = Some (i, rest)"
proof -
  assume e: "ends_number rest"
  show ?thesis
  proof (cases "i < 0")
    case True
    then show ?thesis
      using read_nat_nat_str [OF e, of "nat (- i)"] by (simp add: read_int_def num_str_def)
  next
    case False
    have "nat_str (nat i) @ rest \<noteq> []" using nat_str_nonempty by simp
    moreover have "hd (nat_str (nat i) @ rest) \<noteq> CHR ''-''"
      using hd_nat_str [of "nat i"] nat_str_nonempty [of "nat i"] by simp
    ultimately show ?thesis
      using False read_nat_nat_str [OF e, of "nat i"] by (simp add: read_int_def num_str_def)
  qed
qed

lemma ends_number_simps [simp]:
  "ends_number (CHR ''}'' # rest)" "ends_number (CHR '','' # rest)" "ends_number []"
  by (simp_all add: ends_number_def is_digit_def)

lemma read_string_quoted:
  "CHR 0x22 \<notin> set key \<Longrightarrow> read_string (CHR 0x22 # key @ CHR 0x22 # rest) = Some (key, rest)"
  by (simp add: read_string_def takeWhile_until dropWhile_until)

lemma read_token_json_token:
  "CHR 0x22 \<notin> set key \<Longrightarrow> read_token (json_token (key, v) @ rest) = Some ((key, v), rest)"
  by (simp add: read_token_def json_token_def json_string_def read_string_quoted read_int_num_str)

lemma read_token_list_json:
  "ts \<noteq> [] \<Longrightarrow> \<forall>key \<in> fst ` set ts. CHR 0x22 \<notin> set key \<Longrightarrow> rest = [] \<or> hd rest \<noteq> CHR '','' \<Longrightarrow>
   read_token_list (json_commas (map json_token ts) @ rest) = Some (ts, rest)"
proof (induction ts)
  case Nil
  then show ?case by simp
next
  case (Cons t ts)
  obtain key v where t: "t = (key, v)" by (cases t)
  from Cons.prems have q: "CHR 0x22 \<notin> set key" by (simp add: t)
  show ?case
  proof (cases ts)
    case Nil
    have "read_token (json_token (key, v) @ rest) = Some ((key, v), rest)"
      using q by (simp add: read_token_json_token)
    then show ?thesis
      using Cons.prems(3) by (subst read_token_list.simps) (auto simp: Nil t)
  next
    case (Cons t' ts')
    have c: "json_commas (map json_token (t # ts)) @ rest
        = json_token (key, v) @ CHR '','' # json_commas (map json_token ts) @ rest"
      by (simp add: Cons t)
    have r: "read_token (json_token (key, v) @ CHR '','' # json_commas (map json_token ts) @ rest)
        = Some ((key, v), CHR '','' # json_commas (map json_token ts) @ rest)"
      using q by (simp add: read_token_json_token)
    have ih: "read_token_list (json_commas (map json_token ts) @ rest) = Some (ts, rest)"
      using Cons.IH Cons.prems by (simp add: Cons)
    show ?thesis
      unfolding c by (subst read_token_list.simps) (simp add: r ih t)
  qed
qed


lemma read_tokens_json:
  "\<forall>key \<in> fst ` set ts. CHR 0x22 \<notin> set key \<Longrightarrow>
   read_tokens (CHR ''['' # json_commas (map json_token ts) @ CHR '']'' # rest) = Some (ts, rest)"
proof (cases ts)
  case Nil
  then show ?thesis by (simp add: read_tokens_def)
next
  case (Cons t ts')
  obtain key v where t: "t = (key, v)" by (cases t)
  assume q: "\<forall>key \<in> fst ` set ts. CHR 0x22 \<notin> set key"
  have ne: "ts \<noteq> []" by (simp add: Cons)
  have h: "hd (json_commas (map json_token ts) @ CHR '']'' # rest) = CHR ''[''"
    by (cases ts') (simp_all add: Cons t json_token_def)
  have n: "json_commas (map json_token ts) @ CHR '']'' # rest \<noteq> []" by simp
  have "read_token_list (json_commas (map json_token ts) @ CHR '']'' # rest) = Some (ts, CHR '']'' # rest)"
    using read_token_list_json [OF ne q, of "CHR '']'' # rest"] by simp
  then show ?thesis
    using h by (simp add: read_tokens_def)
qed

lemma read_inventory_json:
  "read_inventory (json_inventory i @ CHR '','' # rest) = Some (i, CHR '','' # rest)"
  by (cases i) (simp_all add: read_inventory_def json_inventory_def json_string_def read_int_num_str)

lemma read_mode_json: "read_mode (json_mode mm @ rest) = Some (mm, rest)"
  by (cases mm) (simp_all add: read_mode_def json_mode_def json_string_def)

lemma read_cell_json:
  "read_cell (CHR ''{'' # json_string ''row'' @ CHR '':'' # num_str r @ CHR '','' # json_string ''col'' @ CHR '':'' #
      num_str c @ CHR ''}'' # rest) = Some (\<lparr>row = r, col = c\<rparr>, rest)"
  by (simp add: read_cell_def json_string_def read_int_num_str)

lemma read_memento_json:
  "\<forall>key \<in> fst ` set (tokens m). CHR 0x22 \<notin> set key \<Longrightarrow>
   read_memento (json_memento m @ CHR ''}'' # rest) = Some (m, CHR ''}'' # rest)"
proof -
  assume q: "\<forall>key \<in> fst ` set (tokens m). CHR 0x22 \<notin> set key"
  obtain ts i pc mm tg where m: "m = \<lparr>tokens = ts, m_inventory = i, m_playerCell = pc, movementMode = mm, target = tg\<rparr>"
    by (cases m)
  obtain r c where pc: "pc = \<lparr>row = r, col = c\<rparr>" by (cases pc)
  from q have q': "\<forall>key \<in> fst ` set ts. CHR 0x22 \<notin> set key" by (simp add: m)
  note tk = read_tokens_json [OF q']
  show ?thesis
    by (cases mm; cases tg)
       (simp_all add: m pc read_memento_def json_memento_def json_string_def tk read_inventory_json
          read_cell_json [unfolded json_string_def, simplified] read_mode_json read_int_num_str)
qed

lemma parse_payload_json_payload:
  "\<forall>key \<in> fst ` set (tokens (snapshot p)). CHR 0x22 \<notin> set key \<Longrightarrow>
   parse_payload (json_payload p) = Some p"
proof -
  assume q: "\<forall>key \<in> fst ` set (tokens (snapshot p)). CHR 0x22 \<notin> set key"
  obtain ver m where p: "p = \<lparr>version = ver, snapshot = m\<rparr>" by (cases p)
  from q have "read_memento (json_memento m @ CHR ''}'' # []) = Some (m, CHR ''}'' # [])"
    using read_memento_json [of m "[]"] by (simp add: p)
  then show ?thesis
    by (simp add: parse_payload_def read_payload_def json_payload_def json_string_def p read_int_num_str)
qed


lemma nat_str_plain: "CHR 0x22 \<notin> set (nat_str n)"
proof
  assume "CHR 0x22 \<in> set (nat_str n)"
  then have "is_digit (CHR 0x22)" by (rule nat_str_digits)
  then show False by (simp add: is_digit_def)
qed

lemma cellKeyFromRC_plain: "CHR 0x22 \<notin> set (cellKeyFromRC r c)"
  by (simp add: cellKeyFromRC_def num_str_def nat_str_plain)

lemma json_payload_nonempty: "json_payload p \<noteq> []"
  by (simp add: json_payload_def)

lemma saveState_written:
  "length (json_payload \<lparr>version = STORAGE_VERSION, snapshot = serializeState cfg s\<rparr>) \<le> 200000 \<Longrightarrow>
   \<not> setItem_throws (json_payload \<lparr>version = STORAGE_VERSION, snapshot = serializeState cfg s\<rparr>) \<Longrightarrow>
   saveState cfg setItem_throws s st =
     Some (json_payload \<lparr>version = STORAGE_VERSION, snapshot = serializeState cfg s\<rparr>)"
  by (simp add: saveState_def Let_def)

lemma saveState_skipped:
  "length (json_payload \<lparr>version = STORAGE_VERSION, snapshot = serializeState cfg s\<rparr>) > 200000 \<or>
   setItem_throws (json_payload \<lparr>version = STORAGE_VERSION, snapshot = serializeState cfg s\<rparr>) \<Longrightarrow>
   saveState cfg setItem_throws s st = st"
  by (auto simp: saveState_def Let_def)

lemma loadState_parsed:
  "JSON_parse text = Some \<lparr>version = STORAGE_VERSION, snapshot = m\<rparr> \<Longrightarrow> text \<noteq> [] \<Longrightarrow>
   loadState JSON_parse (Some text) = Some m"
  by (simp add: loadState_def)

lemma length_json_commas: "sum_list (map length xs) \<le> length (json_commas xs)"
  by (induction xs rule: json_commas.induct) simp_all

lemma length_json_token: "11 \<le> length (json_token kv)"
  by (cases kv) (simp add: json_token_def json_string_def)

lemma length_json_tokens: "11 * length ts \<le> length (json_commas (map json_token ts))"
proof -
  have "11 * length ts \<le> sum_list (map length (map json_token ts))"
    by (induction ts) (simp_all add: length_json_token add_mono)
  then show ?thesis using length_json_commas [of "map json_token ts"] by linarith
qed

lemma length_json_payload:
  "11 * length (tokens (snapshot p)) \<le> length (json_payload p)"
  using length_json_tokens [of "tokens (snapshot p)"]
  by (simp add: json_payload_def json_memento_def)

lemma length_crowded_tokens: "length (crowded_tokens n) = n"
  by (induction n) simp_all

lemma keys_crowded_tokens: "fst ` set (crowded_tokens n) = (\<lambda>m. cellKeyFromRC 0 (int m)) ` {..<n}"
  by (induction n) (auto simp: lessThan_Suc)

lemma distinct_crowded_tokens: "distinct (map fst (crowded_tokens n))"
proof (induction n)
  case 0
  show ?case by simp
next
  case (Suc n)
  have "cellKeyFromRC 0 (int n) \<notin> fst ` set (crowded_tokens n)"
  proof
    assume "cellKeyFromRC 0 (int n) \<in> fst ` set (crowded_tokens n)"
    then obtain m where m: "m < n" "cellKeyFromRC 0 (int n) = cellKeyFromRC 0 (int m)"
      unfolding keys_crowded_tokens by auto
    from m(2) have "int n = int m" using cellKeyFromRC_inj by blast
    with m(1) show False by simp
  qed
  with Suc show ?case by simp
qed

lemma crowded_too_long:
  "length (json_payload \<lparr>version = STORAGE_VERSION, snapshot = serializeState cfg crowded_state\<rparr>) > 200000"
proof -
  have "11 * length (crowded_tokens 20000) \<le>
      length (json_payload \<lparr>version = STORAGE_VERSION, snapshot = serializeState cfg crowded_state\<rparr>)"
    using length_json_payload [of "\<lparr>version = STORAGE_VERSION, snapshot = serializeState cfg crowded_state\<rparr>"]
    by (simp add: serializeState_def crowded_state_def)
  then show ?thesis by (simp add: length_crowded_tokens)
qed

lemma for_up_rel:
  "R x y \<Longrightarrow> (\<And>i x y. R x y \<Longrightarrow> R (f i x) (g i y)) \<Longrightarrow>
   R (for_up i hi f x) (for_up i hi g y)"
proof (induction i hi f x arbitrary: y rule: for_up.induct)
  case (1 i hi f x)
  show ?case
  proof (cases "i \<le> hi")
    case True
    have "R (f i x) (g i y)" using "1.prems" by blast
    then have "R (for_up (i + 1) hi f (f i x)) (for_up (i + 1) hi g (g i y))"
      using "1.IH" [OF True] "1.prems"(2) by blast
    with True show ?thesis by (simp add: for_up.simps [of i])
  next
    case False
    with "1.prems"(1) show ?thesis by (simp add: for_up.simps [of i])
  qed
qed

lemma sync_cell_v3_eq:
  "sync_cell_v3 numStr r c (stale, s) =
     (removeAll (keyOf_v3 numStr r c) stale,
      if keyOf_v3 numStr r c \<in> fst ` set (visibleCells_v3 s) then s
      else s\<lparr>visibleCells_v3 :=
               AList.update (keyOf_v3 numStr r c) \<lparr>cv3_row = r, cv3_col = c\<rparr> (visibleCells_v3 s),
             effects_v3 := effects_v3 s @ [ViewCreated (keyOf_v3 numStr r c)]\<rparr>)"
proof (cases "map_of (visibleCells_v3 s) (keyOf_v3 numStr r c)")
  case None
  then have "keyOf_v3 numStr r c \<notin> fst ` set (visibleCells_v3 s)" by (simp add: map_of_eq_None_iff)
  with None show ?thesis by (simp add: sync_cell_v3_def Let_def)
next
  case (Some cv)
  then have "keyOf_v3 numStr r c \<in> fst ` set (visibleCells_v3 s)"
    by (metis map_of_eq_None_iff option.distinct(1))
  with Some show ?thesis by (simp add: sync_cell_v3_def Let_def)
qed

lemma sync_cell_v3_rel:
  "sync_rel_v3 s p ks \<Longrightarrow> sync_rel_v3 s (sync_cell_v3 numStr r c p) (ks @ [keyOf_v3 numStr r c])"
proof -
  assume a: "sync_rel_v3 s p ks"
  obtain stale s' where p: "p = (stale, s')" by (cases p)
  have f: "removeAll k (filter (\<lambda>x. x \<notin> set ks) xs) = filter (\<lambda>x. x \<notin> set (ks @ [k])) xs" for k xs
    by (induction xs) auto
  from a show ?thesis
    unfolding p sync_cell_v3_eq by (auto simp: sync_rel_v3_def dom_update f)
qed

lemma destroy_stale_v3_result:
  "distinct ks \<Longrightarrow> set ks \<subseteq> fst ` set (visibleCells_v3 s) \<Longrightarrow>
   \<exists>s'. destroy_stale_v3 cfg numStr parseInt ks s = Inr s' \<and>
        inventory_v3 s' = inventory_v3 s \<and> playerCell_v3 s' = playerCell_v3 s \<and>
        overrides_v3 s' =
          (if MEMORYLESS cfg
           then filter (\<lambda>p. fst p \<notin> set (map (evicted_key_v3 numStr parseInt) ks)) (overrides_v3 s)
           else overrides_v3 s)"
proof (induction ks arbitrary: s)
  case Nil
  show ?case by simp
next
  case (Cons kk ks)
  let ?s1 = "s\<lparr>effects_v3 := effects_v3 s @ [ViewDestroyed kk],
               visibleCells_v3 := AList.delete kk (visibleCells_v3 s),
               overrides_v3 :=
                 (if MEMORYLESS cfg
                  then AList.delete (evicted_key_v3 numStr parseInt kk) (overrides_v3 s)
                  else overrides_v3 s)\<rparr>"
  from Cons.prems have kk: "kk \<in> fst ` set (visibleCells_v3 s)" and nin: "kk \<notin> set ks"
    and d: "distinct ks" and sub: "set ks \<subseteq> fst ` set (visibleCells_v3 s)"
    by simp_all
  from kk obtain cv where cv: "map_of (visibleCells_v3 s) kk = Some cv"
    by (metis map_of_eq_None_iff not_Some_eq)
  have sub1: "set ks \<subseteq> fst ` set (visibleCells_v3 ?s1)"
    using sub nin by (auto simp: delete_filter)
  from Cons.IH [OF d sub1] obtain s' where s':
    "destroy_stale_v3 cfg numStr parseInt ks ?s1 = Inr s'"
    "inventory_v3 s' = inventory_v3 ?s1" "playerCell_v3 s' = playerCell_v3 ?s1"
    "overrides_v3 s' =
          (if MEMORYLESS cfg
           then filter (\<lambda>p. fst p \<notin> set (map (evicted_key_v3 numStr parseInt) ks)) (overrides_v3 ?s1)
           else overrides_v3 ?s1)"
    by blast
  have f: "filter (\<lambda>p. fst p \<notin> set (map (evicted_key_v3 numStr parseInt) ks))
             (filter (\<lambda>p. fst p \<noteq> evicted_key_v3 numStr parseInt kk) (overrides_v3 s))
       = filter (\<lambda>p. fst p \<notin> set (map (evicted_key_v3 numStr parseInt) (kk # ks))) (overrides_v3 s)"
    by (auto intro: filter_cong)
  show ?case
  proof (intro exI [of _ s'] conjI)
    show "destroy_stale_v3 cfg numStr parseInt (kk # ks) s = Inr s'" using cv s'(1) by simp
    show "overrides_v3 s' =
          (if MEMORYLESS cfg
           then filter (\<lambda>p. fst p \<notin> set (map (evicted_key_v3 numStr parseInt) (kk # ks))) (overrides_v3 s)
           else overrides_v3 s)"
      using s'(4) f by (simp add: delete_filter)
  qed (use s' in simp_all)
qed

lemma sync_v3_result:
  "\<exists>s'. syncGridToPlayerWindow_v3 cfg numStr parseInt s = Inr s' \<and>
        inventory_v3 s' = inventory_v3 s \<and> playerCell_v3 s' = playerCell_v3 s \<and>
        overrides_v3 s' =
          (if MEMORYLESS cfg
           then filter (\<lambda>p. fst p \<notin> evicted_key_v3 numStr parseInt `
                    (fst ` set (visibleCells_v3 s) - set (window_keys_v3 numStr (playerVisibleCellRange_v3 s))))
                  (overrides_v3 s)
           else overrides_v3 s)"
proof -
  let ?rng = "playerVisibleCellRange_v3 s"
  let ?p = "for_up (minRow_v3 ?rng) (maxRow_v3 ?rng)
              (\<lambda>r. for_up (minCol_v3 ?rng) (maxCol_v3 ?rng) (\<lambda>c. sync_cell_v3 numStr r c))
              (remdups (map fst (visibleCells_v3 s)), s)"
  let ?wk = "window_keys_v3 numStr ?rng"
  have init: "sync_rel_v3 s (remdups (map fst (visibleCells_v3 s)), s) []"
    by (simp add: sync_rel_v3_def)
  have inner: "sync_rel_v3 s (for_up lo hi (\<lambda>c. sync_cell_v3 numStr r c) x)
       (for_up lo hi (\<lambda>c ks. ks @ [keyOf_v3 numStr r c]) y)"
    if "sync_rel_v3 s x y" for lo hi r x y
    using that by (rule for_up_rel [where R = "sync_rel_v3 s"]) (rule sync_cell_v3_rel)
  have inv: "sync_rel_v3 s ?p ?wk"
    unfolding window_keys_v3_def
    using init by (rule for_up_rel [where R = "sync_rel_v3 s"]) (rule inner)
  obtain stale' s1 where p: "?p = (stale', s1)" by (cases ?p)
  from inv have st: "stale' = filter (\<lambda>k. k \<notin> set ?wk) (remdups (map fst (visibleCells_v3 s)))"
    and keys: "fst ` set (visibleCells_v3 s1) = fst ` set (visibleCells_v3 s) \<union> set ?wk"
    and fr: "overrides_v3 s1 = overrides_v3 s" "inventory_v3 s1 = inventory_v3 s"
      "playerCell_v3 s1 = playerCell_v3 s"
    by (simp_all add: p sync_rel_v3_def)
  have d: "distinct stale'" unfolding st by simp
  have sub: "set stale' \<subseteq> fst ` set (visibleCells_v3 s1)" unfolding st keys by auto
  have ss: "set stale' = fst ` set (visibleCells_v3 s) - set ?wk" unfolding st by auto
  from destroy_stale_v3_result [OF d sub, of cfg numStr parseInt] obtain s' where
    "destroy_stale_v3 cfg numStr parseInt stale' s1 = Inr s'"
    "inventory_v3 s' = inventory_v3 s1" "playerCell_v3 s' = playerCell_v3 s1"
    "overrides_v3 s' =
          (if MEMORYLESS cfg
           then filter (\<lambda>p. fst p \<notin> set (map (evicted_key_v3 numStr parseInt) stale')) (overrides_v3 s1)
           else overrides_v3 s1)"
    by blast
  moreover have "syncGridToPlayerWindow_v3 cfg numStr parseInt s = destroy_stale_v3 cfg numStr parseInt stale' s1"
    by (simp add: syncGridToPlayerWindow_v3_def Let_def p)
  ultimately show ?thesis using fr by (intro exI [of _ s']) (simp add: ss)
qed

lemma sync_snapshot:
  "\<exists>s'. syncGridToPlayerWindow cfg bounds s = Inr s' \<and>
        lastMemento s' = Some (serializeState cfg s) \<and> saveTimer s' = True"
proof -
  let ?wk = "window_keys (playerVisibleCellRange bounds)"
  let ?cells = "window_cells (playerVisibleCellRange bounds)"
  let ?old = "remdups (map fst (visibleCells s))"
  let ?st = "filter (\<lambda>k. k \<notin> set ?wk) ?old"
  let ?s1 = "snd (sync_cells ?cells (?old, saveMemento cfg s))"
  have wk: "?wk = map (\<lambda>(r, c). cellKeyFromRC r c) ?cells" by (simp add: window_keys_def)
  have keys1: "fst ` set (visibleCells ?s1) = fst ` set (visibleCells s) \<union> set ?wk"
    unfolding wk sync_cells_keys by (simp add: saveMemento_fields)
  have d: "distinct ?st" by simp
  have sub: "set ?st \<subseteq> fst ` set (visibleCells ?s1)" unfolding keys1 by auto
  from destroy_stale_result [OF d sub, of cfg] obtain s' where s':
    "destroy_stale cfg ?st ?s1 = Inr s'"
    "lastMemento s' = lastMemento ?s1" "saveTimer s' = saveTimer ?s1"
    by blast
  note fr = sync_cells_frame [of ?cells ?old "saveMemento cfg s"]
  have "lastMemento (saveMemento cfg s) = Some (serializeState cfg s)"
    "saveTimer (saveMemento cfg s) = True"
    by (simp_all add: saveMemento_def scheduleStateSave_def)
  with s' fr show ?thesis by (intro exI [of _ s']) (simp add: sync_unfold)
qed

section \<open>The claims\<close>

text \<open>
  C1, as the code has it. In the revisions with the token store (\<open>part_001\<close>, lines 246 and
  1140), after \<open>setEffectiveValue(row, col, v)\<close> the store holds an entry for the cell if and
  only if \<open>v\<close> differs from the base value of the cell, and the entry is \<open>v\<close>; so after
  \<open>setEffectiveValue\<close> with the base value the cell has no override, and a store without an
  entry equal to its cell's base value stays so. In the first revision (\<open>src/src/main.ts\<close>,
  line 70) \<open>setEffectiveValue\<close> stores \<open>v\<close> whatever the base value is.
\<close>

theorem setEffectiveValue_store:
  "map_of (tokenStore (setEffectiveValue cfg luck r c v s)) (cellKeyFromRC r c) =
     (if v = baseTokenValue luck r c then None else Some v) \<and>
   map_of (tokenStore (setEffectiveValue cfg luck r c (baseTokenValue luck r c) s)) (cellKeyFromRC r c) = None \<and>
   (store_minimal luck s \<longrightarrow> store_minimal luck (setEffectiveValue cfg luck r c v s)) \<and>
   map_of (overrides (setEffectiveValue_v1 r c v s1)) (k_v1 r c) = Some v"
  using setEffectiveValue_minimal [of luck s cfg r c v]
  by (simp add: setEffectiveValue_tokenStore update_conv' delete_conv' setEffectiveValue_v1_def
      saveMemento_v1_def)

theorem setEffectiveValue_store_witness:
  "store_minimal luck_demo demo_state \<and>
   store_minimal luck_demo (setEffectiveValue config_v3 luck_demo 0 (-2) 0 demo_state) \<and>
   map_of (tokenStore (setEffectiveValue config_v3 luck_demo 0 (-2) 0 demo_state)) (cellKeyFromRC 0 (-2)) = Some 0 \<and>
   map_of (tokenStore (setEffectiveValue config_v3 luck_demo 0 (-2) 2
        (setEffectiveValue config_v3 luck_demo 0 (-2) 0 demo_state))) (cellKeyFromRC 0 (-2)) = None"
proof -
  have h: "store_minimal luck_demo demo_state" by (simp add: store_minimal_def demo_state_def)
  show ?thesis
    using h setEffectiveValue_store [of config_v3 luck_demo 0 "-2" 0 demo_state demo_state_v1]
      setEffectiveValue_store [of config_v3 luck_demo 0 "-2" 2
         "setEffectiveValue config_v3 luck_demo 0 (-2) 0 demo_state" demo_state_v1]
    by (simp add: base_0_m2)
qed

text \<open>
  C1 as stated does not hold of the first revision: there, after \<open>setEffectiveValue\<close> with
  the base value 2 of the cell (0, -2), the store holds the entry 2 for that cell.
\<close>

theorem setEffectiveValue_v1_keeps_baseline:
  "baseTokenValue luck_demo 0 (-2) = 2 \<and>
   map_of (overrides (setEffectiveValue_v1 0 (-2) (baseTokenValue luck_demo 0 (-2)) demo_state_v1)) (k_v1 0 (-2))
     = Some 2"
  by (simp add: base_0_m2 setEffectiveValue_v1_def saveMemento_v1_def demo_state_v1_def)




text \<open>
  C3. Under memoryless mode, a cell whose view is instantiated and which is outside the
  window of a sync has no override after that sync (whatever it held before), so its
  effective value is then the deterministic base value; and it still is after a later sync
  on any bounds, in particular one whose window holds the cell again.
\<close>

theorem memoryless_eviction:
  assumes "MEMORYLESS cfg"
    and "cellKeyFromRC r c \<in> fst ` set (visibleCells s)"
    and "\<not> (minRow (playerVisibleCellRange bounds) \<le> r \<and> r \<le> maxRow (playerVisibleCellRange bounds) \<and>
            minCol (playerVisibleCellRange bounds) \<le> c \<and> c \<le> maxCol (playerVisibleCellRange bounds))"
  shows "\<exists>s'. syncGridToPlayerWindow cfg bounds s = Inr s' \<and>
           map_of (tokenStore s') (cellKeyFromRC r c) = None \<and>
           getEffectiveValue luck s' r c = baseTokenValue luck r c \<and>
           (\<exists>s''. syncGridToPlayerWindow cfg bounds' s' = Inr s'' \<and>
                  getEffectiveValue luck s'' r c = baseTokenValue luck r c)"
proof -
  let ?k = "cellKeyFromRC r c"
  from assms(3) have out: "?k \<notin> set (window_keys (playerVisibleCellRange bounds))"
    by (simp add: window_keys_mem)
  from sync_result [of cfg bounds s] assms(1) obtain s' where s':
    "syncGridToPlayerWindow cfg bounds s = Inr s'"
    "tokenStore s' =
       filter (\<lambda>p. fst p \<notin> fst ` set (visibleCells s) - set (window_keys (playerVisibleCellRange bounds)))
               (tokenStore s)"
    by auto
  have "?k \<in> fst ` set (visibleCells s) - set (window_keys (playerVisibleCellRange bounds))"
    using assms(2) out by blast
  then have none: "map_of (tokenStore s') ?k = None"
    by (simp only: s'(2) map_of_filter_keys if_True)
  from sync_keeps_absent [OF none, of cfg bounds'] obtain s'' where s'':
    "syncGridToPlayerWindow cfg bounds' s' = Inr s''" "map_of (tokenStore s'') ?k = None"
    by blast
  show ?thesis
    using s'(1) none s'' by (auto simp: getEffectiveValue_def)
qed

theorem memoryless_eviction_witness:
  "MEMORYLESS config_v3 \<and>
   cellKeyFromRC 5 5 \<in> fst ` set (visibleCells evict_state) \<and>
   \<not> (minRow (playerVisibleCellRange demo_bounds) \<le> 5 \<and> 5 \<le> maxRow (playerVisibleCellRange demo_bounds) \<and>
      minCol (playerVisibleCellRange demo_bounds) \<le> 5 \<and> 5 \<le> maxCol (playerVisibleCellRange demo_bounds)) \<and>
   getEffectiveValue luck_demo evict_state 5 5 = 16 \<and>
   baseTokenValue luck_demo 5 5 = 0 \<and>
   (\<exists>s'. syncGridToPlayerWindow config_v3 demo_bounds evict_state = Inr s' \<and>
           map_of (tokenStore s') (cellKeyFromRC 5 5) = None \<and>
           getEffectiveValue luck_demo s' 5 5 = 0 \<and>
           (\<exists>s''. syncGridToPlayerWindow config_v3 far_bounds s' = Inr s'' \<and>
                  getEffectiveValue luck_demo s'' 5 5 = 0))"
proof -
  have h1: "MEMORYLESS config_v3" by (simp add: config_v3_def)
  have h2: "cellKeyFromRC 5 5 \<in> fst ` set (visibleCells evict_state)"
    by (simp add: evict_state_def)
  have h3: "\<not> (minRow (playerVisibleCellRange demo_bounds) \<le> 5 \<and> 5 \<le> maxRow (playerVisibleCellRange demo_bounds) \<and>
      minCol (playerVisibleCellRange demo_bounds) \<le> 5 \<and> 5 \<le> maxCol (playerVisibleCellRange demo_bounds))"
    by (simp add: demo_range)
  have b: "baseTokenValue luck_demo 5 5 = 0"
    by (simp add: baseTokenValue_def luck_demo_def num_str_def nat_str_small digit_char_simps)
  have g: "getEffectiveValue luck_demo evict_state 5 5 = 16"
    by (simp add: getEffectiveValue_def evict_state_def)
  show ?thesis
    using h1 h2 h3 g b memoryless_eviction [OF h1 h2 h3, of luck_demo far_bounds]
    by (simp add: b)
qed

text \<open>
  C4. The deterministic value source is a function of the cell id alone: it hashes the key
  \<open>cell:row:col:seed1\<close> (the canonical encoding of the id with the fixed salt \<open>seed1\<close>) and
  returns 2 if the hash is below 0.14, 4 if it is below 0.20, 8 if it is below 0.22, and 0
  otherwise; so every value it returns is one of 0, 2, 4, 8. Being a function of \<open>r\<close> and \<open>c\<close>
  (and of the hash that is fixed for the game), it gives identical values for identical ids.
  The statement holds for every hash \<open>luck\<close>, whatever its range.
\<close>

theorem baseTokenValue_thresholds:
  "baseTokenValue luck r c =
     (if luck (''cell:'' @ num_str r @ '':'' @ num_str c @ '':seed1'') < 14 / 100 then 2
      else if luck (''cell:'' @ num_str r @ '':'' @ num_str c @ '':seed1'') < 20 / 100 then 4
      else if luck (''cell:'' @ num_str r @ '':'' @ num_str c @ '':seed1'') < 22 / 100 then 8
      else 0)
   \<and> baseTokenValue luck r c \<in> {0, 2, 4, 8}"
  by (simp add: baseTokenValue_def Let_def)

text \<open>
  C5. The click handler signals the win once per transition that leaves a new held value
  at or above \<open>TARGET\<close>, and the sync signals nothing (\<open>handleCellClick_effects\<close> and
  \<open>sync_result\<close> above). The position callback does not keep to this: it calls \<open>checkWin\<close>
  after every position update, so the win of one transition is signaled again. Here one
  merge reaches 64 and raises one alert; the position update that follows, which does not
  even move the player and leaves the 64 in hand, raises the alert a second time.
\<close>

theorem position_update_resignals:
  "effects merge_state = [] \<and>
   effects (handleCellClick config_v3 luck_demo 0 0 merge_state) = [WinAlert 64] \<and>
   map_sum id effects
     (handleMovementPosition config_v3 point_bounds CLASSROOM_lat CLASSROOM_lng
        (handleCellClick config_v3 luck_demo 0 0 merge_state)) = Inr [WinAlert 64, WinAlert 64] \<and>
   map_sum id inventory
     (handleMovementPosition config_v3 point_bounds CLASSROOM_lat CLASSROOM_lng
        (handleCellClick config_v3 luck_demo 0 0 merge_state)) = Inr (Some 64)"
  unfolding merge_click
  by (simp add: merge_state_def demo_state_def handleMovementPosition_def Let_def sync_unfold
      point_range window_cells_def window_keys_def sync_cells_def saveMemento_def scheduleStateSave_def
      checkWin_def config_v3_def)

text \<open>
  C6. A sync that runs right after a sync, on the same bounds and with no change of the
  state in between, constructs no cell view and destroys none: the second run returns
  without error, leaves \<open>visibleCells\<close> as the first run left it and logs no further
  construction or destruction.
\<close>

theorem sync_idempotent:
  "\<exists>s1 s2. syncGridToPlayerWindow cfg bounds s = Inr s1 \<and>
           syncGridToPlayerWindow cfg bounds s1 = Inr s2 \<and>
           visibleCells s2 = visibleCells s1 \<and> effects s2 = effects s1"
proof -
  let ?wk = "window_keys (playerVisibleCellRange bounds)"
  from sync_result [of cfg bounds s] obtain s1 where s1:
    "syncGridToPlayerWindow cfg bounds s = Inr s1" "fst ` set (visibleCells s1) = set ?wk"
    by blast
  have stale: "filter (\<lambda>k. k \<notin> set ?wk) (remdups (map fst (visibleCells s1))) = []"
    using s1(2) by (auto simp: filter_empty_conv)
  have "set (map (\<lambda>(r, c). cellKeyFromRC r c) (window_cells (playerVisibleCellRange bounds)))
      \<subseteq> fst ` set (visibleCells (saveMemento cfg s1))"
    using s1(2) by (simp add: saveMemento_fields window_keys_def)
  then have loop: "snd (sync_cells (window_cells (playerVisibleCellRange bounds))
               (remdups (map fst (visibleCells s1)), saveMemento cfg s1)) = saveMemento cfg s1"
    by (rule sync_cells_present)
  have "syncGridToPlayerWindow cfg bounds s1 = Inr (saveMemento cfg s1)"
    unfolding sync_unfold stale loop by simp
  with s1(1) show ?thesis by (auto simp: saveMemento_fields)
qed

text \<open>
  C7, as the code has it. When the text of the snapshot is at most 200000 characters, the
  write to \<open>localStorage\<close> does not throw and \<open>JSON.parse\<close> reads back the payload that was
  written, \<open>saveState\<close> followed by \<open>loadState\<close> gives back the snapshot, and \<open>loadMemento\<close>
  restores the token store, the inventory and the player's cell of the state that was saved;
  restoring from the same entries in any other order gives the same overrides. When the
  text is longer or the write throws, \<open>saveState\<close> writes nothing and the stored item stays
  what it was. (The keys of a \<open>Map\<close> are distinct, which is the first hypothesis.)
\<close>

theorem save_load_roundtrip:
  "(distinct (map fst (tokenStore s)) \<and>
    length (json_payload \<lparr>version = STORAGE_VERSION, snapshot = serializeState cfg s\<rparr>) \<le> 200000 \<and>
    \<not> setItem_throws (json_payload \<lparr>version = STORAGE_VERSION, snapshot = serializeState cfg s\<rparr>) \<and>
    JSON_parse (json_payload \<lparr>version = STORAGE_VERSION, snapshot = serializeState cfg s\<rparr>) =
      Some \<lparr>version = STORAGE_VERSION, snapshot = serializeState cfg s\<rparr> \<longrightarrow>
      loadState JSON_parse (saveState cfg setItem_throws s st) = Some (serializeState cfg s) \<and>
      tokenStore (loadMemento JSON_parse (saveState cfg setItem_throws s st) s0) = tokenStore s \<and>
      inventory (loadMemento JSON_parse (saveState cfg setItem_throws s st) s0) = inventory s \<and>
      playerCell (loadMemento JSON_parse (saveState cfg setItem_throws s st) s0) = playerCell s \<and>
      (set ts = set (tokenStore s) \<and> distinct (map fst ts) \<longrightarrow>
         map_of (tokenStore (restoreFromMemento ((serializeState cfg s)\<lparr>tokens := ts\<rparr>) s0))
           = map_of (tokenStore s))) \<and>
   (length (json_payload \<lparr>version = STORAGE_VERSION, snapshot = serializeState cfg s\<rparr>) > 200000 \<or>
    setItem_throws (json_payload \<lparr>version = STORAGE_VERSION, snapshot = serializeState cfg s\<rparr>) \<longrightarrow>
      saveState cfg setItem_throws s st = st)"
proof (intro conjI impI)
  let ?J = "json_payload \<lparr>version = STORAGE_VERSION, snapshot = serializeState cfg s\<rparr>"
  assume a: "distinct (map fst (tokenStore s)) \<and> length ?J \<le> 200000 \<and> \<not> setItem_throws ?J \<and>
    JSON_parse ?J = Some \<lparr>version = STORAGE_VERSION, snapshot = serializeState cfg s\<rparr>"
  then have sv: "saveState cfg setItem_throws s st = Some ?J"
    by (simp add: saveState_written)
  have ld: "loadState JSON_parse (Some ?J) = Some (serializeState cfg s)"
    using a by (intro loadState_parsed json_payload_nonempty) simp
  show "loadState JSON_parse (saveState cfg setItem_throws s st) = Some (serializeState cfg s)"
    unfolding sv by (rule ld)
  have lm: "loadMemento JSON_parse (saveState cfg setItem_throws s st) s0 =
      restoreFromMemento (serializeState cfg s) (s0\<lparr>lastMemento := Some (serializeState cfg s)\<rparr>)"
    unfolding sv by (simp add: loadMemento_def ld)
  from a have d: "distinct (map fst (tokenStore s))" by simp
  show "tokenStore (loadMemento JSON_parse (saveState cfg setItem_throws s st) s0) = tokenStore s"
    unfolding lm using restoreFromMemento_serializeState [OF d] by blast
  show "inventory (loadMemento JSON_parse (saveState cfg setItem_throws s st) s0) = inventory s"
    unfolding lm using restoreFromMemento_serializeState [OF d] by blast
  show "playerCell (loadMemento JSON_parse (saveState cfg setItem_throws s st) s0) = playerCell s"
    unfolding lm using restoreFromMemento_serializeState [OF d] by blast
  assume "set ts = set (tokenStore s) \<and> distinct (map fst ts)"
  then show "map_of (tokenStore (restoreFromMemento ((serializeState cfg s)\<lparr>tokens := ts\<rparr>) s0))
           = map_of (tokenStore s)"
    using restoreFromMemento_any_order [OF d] by blast
next
  assume "length (json_payload \<lparr>version = STORAGE_VERSION, snapshot = serializeState cfg s\<rparr>) > 200000 \<or>
    setItem_throws (json_payload \<lparr>version = STORAGE_VERSION, snapshot = serializeState cfg s\<rparr>)"
  then show "saveState cfg setItem_throws s st = st" by (rule saveState_skipped)
qed

theorem save_load_roundtrip_witness:
  "(distinct (map fst (tokenStore saved_state)) \<and>
    length (json_payload \<lparr>version = STORAGE_VERSION, snapshot = serializeState config_v3 saved_state\<rparr>) = 162 \<and>
    \<not> setItem_ok (json_payload \<lparr>version = STORAGE_VERSION, snapshot = serializeState config_v3 saved_state\<rparr>) \<and>
    parse_payload (json_payload \<lparr>version = STORAGE_VERSION, snapshot = serializeState config_v3 saved_state\<rparr>) =
      Some \<lparr>version = STORAGE_VERSION, snapshot = serializeState config_v3 saved_state\<rparr> \<and>
    loadState parse_payload (saveState config_v3 setItem_ok saved_state None) =
      Some (serializeState config_v3 saved_state) \<and>
    tokenStore (loadMemento parse_payload (saveState config_v3 setItem_ok saved_state None) demo_state) =
      tokenStore saved_state \<and>
    inventory (loadMemento parse_payload (saveState config_v3 setItem_ok saved_state None) demo_state) = Some 2 \<and>
    playerCell (loadMemento parse_payload (saveState config_v3 setItem_ok saved_state None) demo_state) =
      \<lparr>row = 1, col = 0\<rparr> \<and>
    map_of (tokenStore (restoreFromMemento
        ((serializeState config_v3 saved_state)\<lparr>tokens := rev (tokenStore saved_state)\<rparr>) demo_state))
      = map_of (tokenStore saved_state)) \<and>
   (length (json_payload \<lparr>version = STORAGE_VERSION, snapshot = serializeState config_v3 crowded_state\<rparr>) > 200000 \<and>
    saveState config_v3 setItem_ok crowded_state None = None) \<and>
   (setItem_full (json_payload \<lparr>version = STORAGE_VERSION, snapshot = serializeState config_v3 saved_state\<rparr>) \<and>
    saveState config_v3 setItem_full saved_state None = None)"
proof -
  let ?J = "json_payload \<lparr>version = STORAGE_VERSION, snapshot = serializeState config_v3 saved_state\<rparr>"
  have k: "cellKeyFromRC 0 (-2) = ''0:-2''" "cellKeyFromRC 1 1 = ''1:1''"
    by (simp_all add: cellKeyFromRC_def num_str_def nat_str_small digit_char_simps)
  have d: "distinct (map fst (tokenStore saved_state))"
    by (simp add: saved_state_def k)
  have l: "length ?J = 162"
    by (simp add: json_payload_def json_memento_def json_token_def json_string_def json_inventory_def
        json_mode_def serializeState_def saved_state_def demo_state_def config_v3_def STORAGE_VERSION_def
        k num_str_def nat_str_small nat_str_big digit_char_simps)
  have o: "\<not> setItem_ok ?J" by (simp add: setItem_ok_def)
  have f: "setItem_full ?J" by (simp add: setItem_full_def)
  have q: "\<forall>key \<in> fst ` set (tokens (snapshot \<lparr>version = STORAGE_VERSION,
      snapshot = serializeState config_v3 saved_state\<rparr>)). CHR 0x22 \<notin> set key"
    by (simp add: serializeState_def saved_state_def cellKeyFromRC_plain)
  have p: "parse_payload ?J = Some \<lparr>version = STORAGE_VERSION, snapshot = serializeState config_v3 saved_state\<rparr>"
    using q by (rule parse_payload_json_payload)
  have r: "set (rev (tokenStore saved_state)) = set (tokenStore saved_state) \<and>
      distinct (map fst (rev (tokenStore saved_state)))"
    using d by (simp add: rev_map [symmetric])
  have i: "inventory saved_state = Some 2" "playerCell saved_state = \<lparr>row = 1, col = 0\<rparr>"
    by (simp_all add: saved_state_def)
  show ?thesis
    using d l o f p r i crowded_too_long [of config_v3]
      save_load_roundtrip [of saved_state config_v3 setItem_ok parse_payload None demo_state
        "rev (tokenStore saved_state)"]
      save_load_roundtrip [of crowded_state config_v3 setItem_ok parse_payload None demo_state "[]"]
      save_load_roundtrip [of saved_state config_v3 setItem_full parse_payload None demo_state "[]"]
    by simp
qed

text \<open>
  C7 as stated does not hold of every game state: the snapshot of 20000 overrides is not
  written, though the storage would take it, so loading after saving finds nothing and
  restores no override.
\<close>

theorem oversize_snapshot_not_saved:
  "distinct (map fst (tokenStore crowded_state)) \<and>
   length (tokenStore crowded_state) = 20000 \<and>
   saveState config_v3 setItem_ok crowded_state None = None \<and>
   loadState parse_payload (saveState config_v3 setItem_ok crowded_state None) = None \<and>
   tokenStore (loadMemento parse_payload (saveState config_v3 setItem_ok crowded_state None) demo_state) = []"
  using crowded_too_long [of config_v3]
  by (simp add: saveState_def Let_def loadState_def loadMemento_def crowded_state_def
      distinct_crowded_tokens length_crowded_tokens demo_state_def)

text \<open>
  C8. From every starting cell of the button controller, \<open>stepBy(1, 0)\<close> adds exactly 1 to
  the column of its cell and leaves the row as it was; the position it emits is the centre of
  the new cell, and \<open>latLngToCell\<close> of that position is the new cell. (Coordinates are exact
  reals here, see the head of the file.)
\<close>

theorem stepBy_east:
  "col (currentCell (fst (stepBy 1 0 ctl))) = col (currentCell ctl) + 1 \<and>
   row (currentCell (fst (stepBy 1 0 ctl))) = row (currentCell ctl) \<and>
   snd (stepBy 1 0 ctl) =
     cellCenterLatLng (row (currentCell (fst (stepBy 1 0 ctl))))
       (col (currentCell (fst (stepBy 1 0 ctl)))) \<and>
   latLngToCell (lat (snd (stepBy 1 0 ctl))) (lng (snd (stepBy 1 0 ctl))) =
     currentCell (fst (stepBy 1 0 ctl))"
  by (simp add: stepBy_def Let_def latLngToCell_center)

text \<open>
  C9. When the computed window is malformed (the minimum exceeds the maximum on at least
  one axis) the two loops visit no cell, the sync destroys every view that was instantiated
  (one \<open>destroy\<close> per key of \<open>visibleCells\<close>) and leaves \<open>visibleCells\<close> empty, and it returns
  without error.
\<close>

theorem sync_malformed_window:
  "minRow (playerVisibleCellRange bounds) > maxRow (playerVisibleCellRange bounds) \<or>
   minCol (playerVisibleCellRange bounds) > maxCol (playerVisibleCellRange bounds) \<Longrightarrow>
   window_cells (playerVisibleCellRange bounds) = [] \<and>
   (\<exists>s'. syncGridToPlayerWindow cfg bounds s = Inr s' \<and> visibleCells s' = [] \<and>
         effects s' = effects s @ map ViewDestroyed (remdups (map fst (visibleCells s))))"
proof -
  assume m: "minRow (playerVisibleCellRange bounds) > maxRow (playerVisibleCellRange bounds) \<or>
   minCol (playerVisibleCellRange bounds) > maxCol (playerVisibleCellRange bounds)"
  then have e: "window_cells (playerVisibleCellRange bounds) = []" by (rule window_cells_empty)
  then have wk: "window_keys (playerVisibleCellRange bounds) = []" by (simp add: window_keys_def)
  from sync_result [of cfg bounds s] obtain s' cs where s':
    "syncGridToPlayerWindow cfg bounds s = Inr s'"
    "fst ` set (visibleCells s') = set (window_keys (playerVisibleCellRange bounds))"
    "effects s' = effects s @ map ViewCreated cs @ map ViewDestroyed
        (filter (\<lambda>k. k \<notin> set (window_keys (playerVisibleCellRange bounds)))
          (remdups (map fst (visibleCells s))))"
    "set cs = set (window_keys (playerVisibleCellRange bounds)) - fst ` set (visibleCells s)"
    by blast
  from s'(2) have "visibleCells s' = []" by (simp add: wk)
  moreover from s'(4) have "cs = []" by (simp add: wk)
  ultimately show ?thesis using e s'(1) s'(3) by (simp add: wk)
qed

theorem sync_malformed_window_witness:
  "(minRow (playerVisibleCellRange point_bounds) > maxRow (playerVisibleCellRange point_bounds) \<or>
    minCol (playerVisibleCellRange point_bounds) > maxCol (playerVisibleCellRange point_bounds)) \<and>
   window_cells (playerVisibleCellRange point_bounds) = [] \<and>
   (\<exists>s'. syncGridToPlayerWindow config_v3 point_bounds (demo_state\<lparr>visibleCells := two_views\<rparr>) = Inr s' \<and>
         visibleCells s' = [] \<and>
         effects s' = [ViewDestroyed ''0:0'', ViewDestroyed ''0:1''])"
proof -
  have h: "minRow (playerVisibleCellRange point_bounds) > maxRow (playerVisibleCellRange point_bounds) \<or>
    minCol (playerVisibleCellRange point_bounds) > maxCol (playerVisibleCellRange point_bounds)"
    by (simp add: playerVisibleCellRange_def point_bounds_def latLngToCell_def Let_def VIEW_RADIUS_def
        INTERACT_RANGE_def)
  have k: "remdups (map fst two_views) = [''0:0'', ''0:1'']"
    by (simp add: two_views_def cellKeyFromRC_def num_str_def nat_str_small digit_char_simps)
  show ?thesis
    using h sync_malformed_window [OF h, of config_v3 "demo_state\<lparr>visibleCells := two_views\<rparr>"]
    by (simp add: k demo_state_def)
qed

text \<open>
  C10, as the code has it. Every call of the sync returns without error and with the
  inventory and the player's cell it was given. In the modelled revision (\<open>part_001\<close>, line
  1525) the movement mode is kept too, the token store loses, under memoryless mode, the
  entries of the keys that were instantiated and are not in the window, and nothing
  otherwise; and the call of \<open>saveMemento\<close> at its head also writes the snapshot variables:
  \<open>lastMemento\<close> becomes the snapshot of the state the sync was called on, and the debounced
  save is pending. The sync of the player-window revision (\<open>part_001\<close>, line 2345) writes
  neither of them; under memoryless mode its overrides lose the entries of the keys it
  rebuilds with \<open>parseInt\<close> from the keys that were instantiated and are not visited by its
  loops, and nothing otherwise.
\<close>

theorem sync_frame:
  "(\<exists>s'. syncGridToPlayerWindow cfg bounds s = Inr s' \<and>
        inventory s' = inventory s \<and> playerCell s' = playerCell s \<and>
        currentMovementMode s' = currentMovementMode s \<and>
        tokenStore s' =
          (if MEMORYLESS cfg
           then filter (\<lambda>p. fst p \<notin> fst ` set (visibleCells s) - set (window_keys (playerVisibleCellRange bounds)))
                  (tokenStore s)
           else tokenStore s) \<and>
        lastMemento s' = Some (serializeState cfg s) \<and> saveTimer s' = True) \<and>
   (\<exists>t'. syncGridToPlayerWindow_v3 cfg numStr parseInt t = Inr t' \<and>
        inventory_v3 t' = inventory_v3 t \<and> playerCell_v3 t' = playerCell_v3 t \<and>
        overrides_v3 t' =
          (if MEMORYLESS cfg
           then filter (\<lambda>p. fst p \<notin> evicted_key_v3 numStr parseInt `
                    (fst ` set (visibleCells_v3 t) - set (window_keys_v3 numStr (playerVisibleCellRange_v3 t))))
                  (overrides_v3 t)
           else overrides_v3 t))"
proof
  from sync_result [of cfg bounds s] obtain s' where s':
    "syncGridToPlayerWindow cfg bounds s = Inr s'"
    "inventory s' = inventory s" "playerCell s' = playerCell s"
    "currentMovementMode s' = currentMovementMode s"
    "tokenStore s' =
          (if MEMORYLESS cfg
           then filter (\<lambda>p. fst p \<notin> fst ` set (visibleCells s) - set (window_keys (playerVisibleCellRange bounds)))
                  (tokenStore s)
           else tokenStore s)"
    by blast
  from sync_snapshot [of cfg bounds s] s'(1) have
    "lastMemento s' = Some (serializeState cfg s)" "saveTimer s' = True"
    by auto
  with s' show "\<exists>s'. syncGridToPlayerWindow cfg bounds s = Inr s' \<and>
        inventory s' = inventory s \<and> playerCell s' = playerCell s \<and>
        currentMovementMode s' = currentMovementMode s \<and>
        tokenStore s' =
          (if MEMORYLESS cfg
           then filter (\<lambda>p. fst p \<notin> fst ` set (visibleCells s) - set (window_keys (playerVisibleCellRange bounds)))
                  (tokenStore s)
           else tokenStore s) \<and>
        lastMemento s' = Some (serializeState cfg s) \<and> saveTimer s' = True"
    by blast
  show "\<exists>t'. syncGridToPlayerWindow_v3 cfg numStr parseInt t = Inr t' \<and>
        inventory_v3 t' = inventory_v3 t \<and> playerCell_v3 t' = playerCell_v3 t \<and>
        overrides_v3 t' =
          (if MEMORYLESS cfg
           then filter (\<lambda>p. fst p \<notin> evicted_key_v3 numStr parseInt `
                    (fst ` set (visibleCells_v3 t) - set (window_keys_v3 numStr (playerVisibleCellRange_v3 t))))
                  (overrides_v3 t)
           else overrides_v3 t)"
    by (rule sync_v3_result)
qed

text \<open>
  C10 as stated does not hold of the modelled revision: its sync mutates more than the
  registry of views and the token store. On a fresh page, with no view and no override,
  it sets the pending save and writes the snapshot.
\<close>

theorem sync_writes_snapshot:
  "saveTimer demo_state = False \<and> lastMemento demo_state = None \<and>
   map_sum id saveTimer (syncGridToPlayerWindow config_v3 point_bounds demo_state) = Inr True \<and>
   map_sum id lastMemento (syncGridToPlayerWindow config_v3 point_bounds demo_state) =
     Inr (Some \<lparr>tokens = [], m_inventory = None, m_playerCell = \<lparr>row = 0, col = 0\<rparr>,
                  movementMode = Some buttons, target = Some 64\<rparr>)"
  by (simp add: demo_state_def sync_unfold point_range window_cells_def window_keys_def sync_cells_def
      saveMemento_def scheduleStateSave_def serializeState_def config_v3_def)

end
